theory Spec2Isabelle
  imports Complex_Main "HOL-Library.Word"
begin

section \<open>Form registry (weakform.cpp)\<close>

text \<open>
  A form carries its equation component \<open>i\<close>, its scaling factor and its resolved area
  markers; a matrix form adds the component \<open>j\<close> and the symmetry flag
  (\<open>-1\<close> antisymmetric, \<open>0\<close> none, \<open>1\<close> symmetric). Volume and surface matrix forms are
  both \<open>MatrixForm\<close>s; a DG matrix form derives from \<open>Form\<close> directly and has no symmetry
  flag. Scalars are modelled as real numbers.
\<close>

record Form =
  form_i :: nat
  scaling_factor :: real
  assembleEverywhere :: bool
  areas_internal :: "int list"

record MatrixForm = Form +
  form_j :: nat
  sym :: int

record MatrixFormDG = Form +
  form_j_DG :: nat

record WeakForm =
  neq :: nat
  mfvol :: "MatrixForm list"
  mfsurf :: "MatrixForm list"
  mfDG :: "MatrixFormDG list"
  vfvol :: "Form list"
  vfsurf :: "Form list"
  vfDG :: "Form list"

datatype exception = Exception string

definition add_matrix_form :: "WeakForm \<Rightarrow> MatrixForm \<Rightarrow> exception + WeakForm" where
  "add_matrix_form w form =
     (if form_i form \<ge> neq w \<or> form_j form \<ge> neq w then
        Inl (Exception ''Invalid equation number.'')
      else if sym form < -1 \<or> sym form > 1 then
        Inl (Exception ''sym must be -1, 0 or 1.'')
      else if sym form < 0 \<and> form_i form = form_j form then
        Inl (Exception ''Only off-diagonal forms can be antisymmetric.'')
      else Inr (w\<lparr>mfvol := mfvol w @ [form]\<rparr>))"

definition add_matrix_form_surf :: "WeakForm \<Rightarrow> MatrixForm \<Rightarrow> exception + WeakForm" where
  "add_matrix_form_surf w form =
     (if form_i form \<ge> neq w \<or> form_j form \<ge> neq w then
        Inl (Exception ''Invalid equation number.'')
      else Inr (w\<lparr>mfsurf := mfsurf w @ [form]\<rparr>))"

definition add_matrix_form_DG :: "WeakForm \<Rightarrow> MatrixFormDG \<Rightarrow> exception + WeakForm" where
  "add_matrix_form_DG w form =
     (if form_i form \<ge> neq w \<or> form_j_DG form \<ge> neq w then
        Inl (Exception ''Invalid equation number.'')
      else Inr (w\<lparr>mfDG := mfDG w @ [form]\<rparr>))"

text \<open>
  What the \<open>add_*\<close> functions guarantee of every registered matrix form: both component
  indices are below \<open>neq\<close>, so every write of \<open>get_blocks\<close> is inside the matrix.
\<close>

definition forms_in_range :: "WeakForm \<Rightarrow> bool" where
  "forms_in_range w =
     (list_all (\<lambda>f. form_i f < neq w \<and> form_j f < neq w) (mfvol w) \<and>
      list_all (\<lambda>f. form_i f < neq w \<and> form_j f < neq w) (mfsurf w) \<and>
      list_all (\<lambda>f. form_i f < neq w \<and> form_j_DG f < neq w) (mfDG w))"

definition is_DG :: "WeakForm \<Rightarrow> bool" where
  "is_DG w = (if mfDG w = [] \<and> vfDG w = [] then False else True)"

text \<open>
  \<open>blocks[r][c] = true\<close> on the matrix of rows. The threshold \<open>Hermes::HermesSqrtEpsilon\<close>
  is declared outside the sources at hand and is a parameter \<open>eps\<close> of every function
  that compares against it.
\<close>

definition set_block :: "bool list list \<Rightarrow> nat \<Rightarrow> nat \<Rightarrow> bool list list" where
  "set_block blocks r c = blocks[r := (blocks ! r)[c := True]]"

definition init_blocks :: "nat \<Rightarrow> bool \<Rightarrow> bool list list" where
  "init_blocks n force_diagonal_blocks =
     map (\<lambda>i. let row = replicate n False
              in if force_diagonal_blocks then row[i := True] else row) [0..<n]"

definition mark_mfvol :: "real \<Rightarrow> MatrixForm \<Rightarrow> bool list list \<Rightarrow> bool list list" where
  "mark_mfvol eps f blocks =
     (let b1 = (if \<bar>scaling_factor f\<bar> > eps then set_block blocks (form_i f) (form_j f)
                else blocks)
      in if sym f \<noteq> 0 then
           (if \<bar>scaling_factor f\<bar> > eps then set_block b1 (form_j f) (form_i f) else b1)
         else b1)"

definition mark_mfsurf :: "real \<Rightarrow> MatrixForm \<Rightarrow> bool list list \<Rightarrow> bool list list" where
  "mark_mfsurf eps f blocks =
     (if \<bar>scaling_factor f\<bar> > eps then set_block blocks (form_i f) (form_j f) else blocks)"

definition mark_mfDG :: "real \<Rightarrow> MatrixFormDG \<Rightarrow> bool list list \<Rightarrow> bool list list" where
  "mark_mfDG eps f blocks =
     (if \<bar>scaling_factor f\<bar> > eps then set_block blocks (form_i f) (form_j_DG f) else blocks)"

definition get_blocks :: "real \<Rightarrow> WeakForm \<Rightarrow> bool \<Rightarrow> bool list list" where
  "get_blocks eps w force_diagonal_blocks =
     fold (mark_mfDG eps) (mfDG w)
       (fold (mark_mfsurf eps) (mfsurf w)
         (fold (mark_mfvol eps) (mfvol w)
           (init_blocks (neq w) force_diagonal_blocks)))"

text \<open>
  The block predicate in the words of the specification, for comparison with
  \<open>get_blocks\<close>: a block is marked by the force-diagonal option, by a matrix form of any
  kind with a scaling factor above the threshold on that block, or by a symmetric
  (flag \<open>1\<close>) matrix form above the threshold on the transposed block.
\<close>

definition spec_block_marked :: "real \<Rightarrow> WeakForm \<Rightarrow> bool \<Rightarrow> nat \<Rightarrow> nat \<Rightarrow> bool" where
  "spec_block_marked eps w force_diagonal_blocks r c =
     ((force_diagonal_blocks \<and> r = c) \<or>
      (\<exists>f \<in> set (mfvol w). \<bar>scaling_factor f\<bar> > eps \<and> form_i f = r \<and> form_j f = c) \<or>
      (\<exists>f \<in> set (mfsurf w). \<bar>scaling_factor f\<bar> > eps \<and> form_i f = r \<and> form_j f = c) \<or>
      (\<exists>f \<in> set (mfDG w). \<bar>scaling_factor f\<bar> > eps \<and> form_i f = r \<and> form_j_DG f = c) \<or>
      (\<exists>f \<in> set (mfvol w @ mfsurf w).
          sym f = 1 \<and> \<bar>scaling_factor f\<bar> > eps \<and> form_i f = c \<and> form_j f = r))"

definition square_blocks :: "nat \<Rightarrow> bool list list \<Rightarrow> bool" where
  "square_blocks n b = (length b = n \<and> (\<forall>k<n. length (b ! k) = n))"

section \<open>Mesh and traversal data consumed by the assembler and the space\<close>

text \<open>
  Only what the functions below read of a mesh node and of an element. A node is a vertex
  node or an edge node; \<open>constrained_vertex\<close> is the answer of
  \<open>Node::is_constrained_vertex()\<close>, which the mesh computes. \<open>vn\<close> and \<open>en\<close> are the
  vertex nodes and the edge nodes of an element, \<open>nvert\<close> of each.
\<close>

record Node =
  node_id :: nat
  node_ref :: nat
  node_bnd :: bool
  node_marker :: int
  node_p1 :: int
  node_p2 :: int
  constrained_vertex :: bool

record Element =
  elem_id :: nat
  elem_marker :: int
  nvert :: nat
  vn :: "Node list"
  en :: "Node list"
  active :: bool

text \<open>
  A traversal state: \<open>e[i]\<close> is the element of component \<open>i\<close> (\<open>None\<close> for a null
  pointer), \<open>rep\<close> the representing element, \<open>isurf\<close> the active edge.
\<close>

record Traverse_State =
  st_e :: "Element option list"
  st_rep :: Element
  st_isurf :: nat

text \<open>An assembly list is the sequence of its triplets (shape index, DOF, coefficient).\<close>

type_synonym AsmList = "(int \<times> int \<times> real) list"

definition al_dof :: "AsmList \<Rightarrow> int list" where
  "al_dof al = map (\<lambda>t. fst (snd t)) al"

text \<open>
  What the assembler asks of a space: its sequence identifier, its DOF count, the assembly
  list of an element, and the neighbours of an element across an edge (the neighbour
  search on the space's mesh). All four are computed outside the sources at hand.
\<close>

record SpaceHandle =
  get_seq :: int
  space_ndof :: int
  get_element_assembly_list :: "Element \<Rightarrow> AsmList"
  get_neighbors :: "Element \<Rightarrow> nat \<Rightarrow> Element list"

definition get_num_dofs :: "SpaceHandle list \<Rightarrow> int" where
  "get_num_dofs spaces = sum_list (map space_ndof spaces)"

section \<open>Essential boundary conditions (essential\_boundary\_conditions.cpp)\<close>

text \<open>
  Modelled from the spec: the wildcard marker \<open>HERMES_ANY\<close> is declared outside the
  sources at hand. It is a fixed string; no proof below depends on which one.
\<close>

definition HERMES_ANY :: string where
  "HERMES_ANY = ''-1234''"

text \<open>
  A condition lists the markers it applies to. The container keeps every condition added
  (\<open>all\<close>), the cache of markers with the condition of each, in parallel, and the
  condition registered on the wildcard, if any.
\<close>

record EssentialBoundaryCondition =
  bc_markers :: "string list"
  value_const :: real
  current_time :: real

record EssentialBCs =
  all_bcs :: "EssentialBoundaryCondition list"
  markers :: "string list"
  BCs :: "EssentialBoundaryCondition list"
  HermesAnyBC :: "EssentialBoundaryCondition option"

definition EssentialBCs_empty :: EssentialBCs where
  "EssentialBCs_empty = \<lparr>all_bcs = [], markers = [], BCs = [], HermesAnyBC = None\<rparr>"

text \<open>
  The search loop of \<open>get_boundary_condition\<close> and of the duplicate check in
  \<open>create_marker_cache\<close>: \<open>for (unsigned short i = 0; i < markers.size(); i++)\<close>. The
  counter is a 16-bit word and wraps; a search that never ends has the value \<open>None\<close>.
  The result is the first index holding the marker, or \<open>Some None\<close> when the loop runs
  off the end.
\<close>

partial_function (option) find_marker :: "string list \<Rightarrow> string \<Rightarrow> 16 word \<Rightarrow> nat option option" where
  "find_marker ms marker i =
     (if unat i < length ms then
        (if ms ! unat i = marker then Some (Some (unat i)) else find_marker ms marker (i + 1))
      else Some None)"

definition get_boundary_condition ::
  "EssentialBCs \<Rightarrow> string \<Rightarrow> EssentialBoundaryCondition option option" where
  "get_boundary_condition s marker =
     (if HermesAnyBC s \<noteq> None then Some (HermesAnyBC s)
      else (case find_marker (markers s) marker 0 of
              None \<Rightarrow> None
            | Some None \<Rightarrow> Some None
            | Some (Some k) \<Rightarrow> Some (Some (BCs s ! k))))"

text \<open>
  \<open>create_marker_cache\<close>: the locals \<open>hermes_any_set\<close> and \<open>any_set\<close> together with the
  container being rebuilt; one step per marker of each condition; an exception ends the
  run.
\<close>

record cache_state =
  hermes_any_set :: bool
  any_set :: "EssentialBoundaryCondition option"
  cache :: EssentialBCs

definition cache_marker ::
  "EssentialBoundaryCondition \<Rightarrow> string \<Rightarrow> cache_state \<Rightarrow> (exception + cache_state) option" where
  "cache_marker bc it c =
     (if hermes_any_set c then
        Some (Inl (Exception ''Attempt to define a BC on HERMES_ANY together with a BC on a specific part.''))
      else if it = HERMES_ANY then
        (if any_set c \<noteq> None then
           Some (Inl (Exception ''Attempt to define a BC on HERMES_ANY together with a BC on a specific part.''))
         else Some (Inr (c\<lparr>hermes_any_set := True, cache := (cache c)\<lparr>HermesAnyBC := Some bc\<rparr>\<rparr>)))
      else
        (case find_marker (markers (cache c)) it 0 of
           None \<Rightarrow> None
         | Some (Some k) \<Rightarrow>
             Some (Inl (Exception ''Attempt to define more than one description of the BC on the same part of the boundary.''))
         | Some None \<Rightarrow>
             Some (Inr (c\<lparr>any_set := Some bc,
                          cache := (cache c)\<lparr>markers := markers (cache c) @ [it],
                                            BCs := BCs (cache c) @ [bc]\<rparr>\<rparr>))))"

fun cache_markers ::
  "EssentialBoundaryCondition \<Rightarrow> string list \<Rightarrow> cache_state \<Rightarrow> (exception + cache_state) option" where
  "cache_markers bc [] c = Some (Inr c)"
| "cache_markers bc (it # its) c =
     (case cache_marker bc it c of
        None \<Rightarrow> None
      | Some (Inl ex) \<Rightarrow> Some (Inl ex)
      | Some (Inr c') \<Rightarrow> cache_markers bc its c')"

fun cache_conditions ::
  "EssentialBoundaryCondition list \<Rightarrow> cache_state \<Rightarrow> (exception + cache_state) option" where
  "cache_conditions [] c = Some (Inr c)"
| "cache_conditions (bc # bcs) c =
     (case cache_markers bc (bc_markers bc) c of
        None \<Rightarrow> None
      | Some (Inl ex) \<Rightarrow> Some (Inl ex)
      | Some (Inr c') \<Rightarrow> cache_conditions bcs c')"

definition create_marker_cache :: "EssentialBCs \<Rightarrow> (exception + EssentialBCs) option" where
  "create_marker_cache s =
     (case cache_conditions (all_bcs s)
             \<lparr>hermes_any_set = False, any_set = None, cache = s\<lparr>markers := [], BCs := []\<rparr>\<rparr> of
        None \<Rightarrow> None
      | Some (Inl ex) \<Rightarrow> Some (Inl ex)
      | Some (Inr c) \<Rightarrow> Some (Inr (cache c)))"

definition add_boundary_conditions ::
  "EssentialBCs \<Rightarrow> EssentialBoundaryCondition list \<Rightarrow> (exception + EssentialBCs) option" where
  "add_boundary_conditions s boundary_conditions =
     create_marker_cache (s\<lparr>all_bcs := all_bcs s @ boundary_conditions, markers := []\<rparr>)"

definition EssentialBCs_new :: "EssentialBoundaryCondition list \<Rightarrow> (exception + EssentialBCs) option" where
  "EssentialBCs_new essential_bcs = add_boundary_conditions EssentialBCs_empty essential_bcs"

text \<open>
  For the proofs: the pairs (condition, marker) in the order the two nested loops of
  \<open>create_marker_cache\<close> visit them, the same run over that list, and what holds of the
  state after a run without exception.
\<close>

definition marker_pairs ::
  "EssentialBoundaryCondition list \<Rightarrow> (EssentialBoundaryCondition \<times> string) list" where
  "marker_pairs bcs = concat (map (\<lambda>b. map (\<lambda>m. (b, m)) (bc_markers b)) bcs)"

fun cache_pairs ::
  "(EssentialBoundaryCondition \<times> string) list \<Rightarrow> cache_state \<Rightarrow> (exception + cache_state) option" where
  "cache_pairs [] c = Some (Inr c)"
| "cache_pairs (p # ps) c =
     (case cache_marker (fst p) (snd p) c of
        None \<Rightarrow> None
      | Some (Inl ex) \<Rightarrow> Some (Inl ex)
      | Some (Inr c') \<Rightarrow> cache_pairs ps c')"

definition cache_inv ::
  "EssentialBCs \<Rightarrow> (EssentialBoundaryCondition \<times> string) list \<Rightarrow> cache_state \<Rightarrow> bool" where
  "cache_inv s0 ps c =
     ((HERMES_ANY \<notin> set (map snd ps) \<and> distinct (map snd ps) \<and> \<not> hermes_any_set c \<and>
       any_set c = (if ps = [] then None else Some (fst (last ps))) \<and>
       cache c = s0\<lparr>markers := map snd ps, BCs := map fst ps\<rparr>) \<or>
      (\<exists>b. ps = [(b, HERMES_ANY)] \<and> hermes_any_set c \<and>
           cache c = s0\<lparr>markers := [], BCs := [], HermesAnyBC := Some b\<rparr>))"

section \<open>H1 space: DOF assignment (space\_h1.cpp)\<close>

text \<open>
  A baselist entry, and the node data the functions below read: the DOF and the DOF count
  of a node, the boundary coefficient of a vertex node (a nullable pointer) and the
  baselist of a constrained vertex node with its length.
\<close>

record BaseComponent =
  dof :: int
  coef :: real

record NodeData =
  nd_dof :: int
  nd_n :: int
  vertex_bc_coef :: "real option"
  baselist :: "BaseComponent list"
  ncomponents :: int

text \<open>
  The mesh as the space consults it, and the space. The two sentinel DOF values
  \<open>H2D_UNASSIGNED_DOF\<close> and \<open>H2D_CONSTRAINED_DOF\<close>, the order of an element and the order
  of an edge are defined outside the sources at hand; they are members of the space here,
  so every statement holds for any values of them.
\<close>

record Mesh =
  elements :: "Element list"
  peek_vertex_node :: "int \<Rightarrow> int \<Rightarrow> Node option"
  get_user_marker :: "int \<Rightarrow> string"

record Space =
  mesh :: Mesh
  ndata :: "nat \<Rightarrow> NodeData"
  next_dof :: int
  vertex_functions_count :: int
  edge_functions_count :: int
  essential_bcs :: "EssentialBCs option"
  H2D_UNASSIGNED_DOF :: int
  H2D_CONSTRAINED_DOF :: int
  get_element_order :: "nat \<Rightarrow> int"
  get_edge_order_internal :: "Node \<Rightarrow> int"

text \<open>
  The DOF counters are C++ \<open>int\<close>s, 32 bits in two's complement. \<open>int32\<close> is the value a
  32-bit register holds for an integer: the sums and differences of the edge pass are
  taken through it, so they wrap around at \<open>2147483647\<close> as the hardware does (C++ leaves
  signed overflow undefined).
\<close>

definition int32 :: "int \<Rightarrow> int" where
  "int32 x = (x + 2147483648) mod 4294967296 - 2147483648"

definition set_nd :: "Space \<Rightarrow> nat \<Rightarrow> NodeData \<Rightarrow> Space" where
  "set_nd sp k nd = sp\<lparr>ndata := (ndata sp)(k := nd)\<rparr>"

definition assign_new_edge_dofs :: "Space \<Rightarrow> nat \<Rightarrow> int \<Rightarrow> Space" where
  "assign_new_edge_dofs sp k ndofs =
     (set_nd sp k ((ndata sp k)\<lparr>nd_dof := next_dof sp\<rparr>))
       \<lparr>next_dof := int32 (next_dof sp + ndofs),
        edge_functions_count := int32 (edge_functions_count sp + ndofs)\<rparr>"

text \<open>
  The body of the edge loop of \<open>assign_edge_dofs\<close> for the edge \<open>i\<close> of the element
  \<open>e\<close>. The three nested \<open>if\<close>s without braces pair each \<open>else\<close> with the nearest
  \<open>if\<close>: the sentinel is assigned when the edge is on the boundary, the space has
  essential conditions and the marker has one; every other path assigns new DOFs.
\<close>

definition assign_edge_dofs_edge :: "Space \<Rightarrow> Element \<Rightarrow> nat \<Rightarrow> Space option" where
  "assign_edge_dofs_edge sp e i =
     (let edge_node = en e ! i; k = node_id edge_node in
      if nd_dof (ndata sp k) = H2D_UNASSIGNED_DOF sp then
        (if node_ref edge_node > 1 \<or> node_bnd edge_node \<or>
            peek_vertex_node (mesh sp) (node_p1 edge_node) (node_p2 edge_node) \<noteq> None then
           (let ndofs = int32 (get_edge_order_internal sp edge_node - 1);
                sp1 = set_nd sp k ((ndata sp k)\<lparr>nd_n := ndofs\<rparr>)
            in if node_bnd edge_node then
                 (case essential_bcs sp1 of
                    Some ebcs \<Rightarrow>
                      (case get_boundary_condition ebcs
                              (get_user_marker (mesh sp1) (node_marker (en e ! i))) of
                         None \<Rightarrow> None
                       | Some (Some bc) \<Rightarrow>
                           Some (set_nd sp1 k ((ndata sp1 k)\<lparr>nd_dof := H2D_CONSTRAINED_DOF sp1\<rparr>))
                       | Some None \<Rightarrow> Some (assign_new_edge_dofs sp1 k ndofs))
                  | None \<Rightarrow> Some (assign_new_edge_dofs sp1 k ndofs))
               else Some (assign_new_edge_dofs sp1 k ndofs))
         else Some (set_nd sp k ((ndata sp k)\<lparr>nd_n := -1\<rparr>)))
      else Some sp)"

fun assign_edge_dofs_edges :: "Element \<Rightarrow> nat list \<Rightarrow> Space \<Rightarrow> Space option" where
  "assign_edge_dofs_edges e [] sp = Some sp"
| "assign_edge_dofs_edges e (i # is) sp =
     (case assign_edge_dofs_edge sp e i of
        None \<Rightarrow> None
      | Some sp' \<Rightarrow> assign_edge_dofs_edges e is sp')"

definition assign_edge_dofs_element :: "Space \<Rightarrow> Element \<Rightarrow> Space option" where
  "assign_edge_dofs_element sp e =
     (let order = get_element_order sp (elem_id e) in
      if order > 0 then assign_edge_dofs_edges e [0..<nvert e] sp else Some sp)"

fun assign_edge_dofs_elements :: "Element list \<Rightarrow> Space \<Rightarrow> Space option" where
  "assign_edge_dofs_elements [] sp = Some sp"
| "assign_edge_dofs_elements (e # es) sp =
     (case assign_edge_dofs_element sp e of
        None \<Rightarrow> None
      | Some sp' \<Rightarrow> assign_edge_dofs_elements es sp')"

definition assign_edge_dofs :: "Space \<Rightarrow> Space option" where
  "assign_edge_dofs sp =
     assign_edge_dofs_elements (filter active (elements (mesh sp)))
       (sp\<lparr>edge_functions_count := 0\<rparr>)"

text \<open>
  For the statements and proofs: the edges the two loops of \<open>assign_edge_dofs\<close> visit, in
  order (the edges of every active element of positive order); the loop body run over a
  list of visits; the state after the first \<open>j\<close> visits; and what the edge pass never
  changes in a space.
\<close>

definition edge_visits :: "Space \<Rightarrow> (Element \<times> nat) list" where
  "edge_visits sp =
     concat (map (\<lambda>e. if get_element_order sp (elem_id e) > 0
                        then map (\<lambda>i. (e, i)) [0..<nvert e] else [])
                 (filter active (elements (mesh sp))))"

fun assign_edge_dofs_visits :: "(Element \<times> nat) list \<Rightarrow> Space \<Rightarrow> Space option" where
  "assign_edge_dofs_visits [] sp = Some sp"
| "assign_edge_dofs_visits (v # vs) sp =
     (case assign_edge_dofs_edge sp (fst v) (snd v) of
        None \<Rightarrow> None
      | Some sp' \<Rightarrow> assign_edge_dofs_visits vs sp')"

definition assign_edge_dofs_upto :: "Space \<Rightarrow> nat \<Rightarrow> Space option" where
  "assign_edge_dofs_upto sp j =
     assign_edge_dofs_visits (take j (edge_visits sp)) (sp\<lparr>edge_functions_count := 0\<rparr>)"

definition same_setting :: "Space \<Rightarrow> Space \<Rightarrow> bool" where
  "same_setting s sp =
     (mesh s = mesh sp \<and> essential_bcs s = essential_bcs sp \<and>
      H2D_UNASSIGNED_DOF s = H2D_UNASSIGNED_DOF sp \<and>
      H2D_CONSTRAINED_DOF s = H2D_CONSTRAINED_DOF sp \<and>
      get_element_order s = get_element_order sp \<and>
      get_edge_order_internal s = get_edge_order_internal sp)"

section \<open>H1 space: merging baselists (space\_h1.cpp)\<close>








text \<open>
  For the statements and proofs: the components written into an array, in order; the
  order in which the three loops hand the input components to \<open>output_component\<close>; what
  one call does to the list of components written so far; the total coefficient a list
  holds for a DOF.
\<close>

primrec emitted :: "BaseComponent option list \<Rightarrow> BaseComponent list" where
  "emitted [] = []"
| "emitted (x # xs) = (case x of None \<Rightarrow> emitted xs | Some c \<Rightarrow> c # emitted xs)"











section \<open>Runge-Kutta time step: the Newton loop (runge\_kutta.cpp)\<close>

text \<open>
  The control flow of \<open>rk_time_step\<close>. What the assembly and the linear solver compute is
  outside the model: \<open>residual_norm it\<close> is the norm measured in the iteration \<open>it\<close> and
  \<open>solve it\<close> is whether the linear solve of that iteration succeeds. \<open>error(...)\<close> ends
  the program and is the outcome \<open>Fatal_error\<close>. The counter is an unbounded integer; it
  stays at most \<open>newton_max_iter + 1\<close>.
\<close>

datatype MatrixSolverType = SOLVER_UMFPACK | SOLVER_OTHER

datatype newton_exit = Newton_return_false | Newton_solver_failed | Newton_break int

function Newton_loop ::
  "(int \<Rightarrow> real) \<Rightarrow> (int \<Rightarrow> bool) \<Rightarrow> bool \<Rightarrow> real \<Rightarrow> int \<Rightarrow> real \<Rightarrow> int \<Rightarrow> newton_exit" where
  "Newton_loop residual_norm solve is_linear newton_tol newton_max_iter
       newton_max_allowed_residual_norm it =
     (if residual_norm it > newton_max_allowed_residual_norm then Newton_return_false
      else if (residual_norm it < newton_tol \<or> it > newton_max_iter) \<and> it > 1 then Newton_break it
      else if \<not> solve it then Newton_solver_failed
      else if is_linear then Newton_break it
      else Newton_loop residual_norm solve is_linear newton_tol newton_max_iter
             newton_max_allowed_residual_norm (it + 1))"
  by pat_completeness auto
termination
  by (relation "measure (\<lambda>(r, s, l, t, newton_max_iter, a, it).
                  nat (max newton_max_iter 1 + 1 - it))") auto

declare Newton_loop.simps [simp del]

datatype rk_outcome = Fatal_error string | Returned bool

text \<open>
  \<open>neq_dp\<close> is the number of equations of the weak formulation, \<open>error_fn_given\<close> whether
  \<open>error_fn\<close> is not null, \<open>is_embedded\<close> the answer of the Butcher table.
\<close>

definition rk_time_step ::
  "MatrixSolverType \<Rightarrow> nat \<Rightarrow> bool \<Rightarrow> bool \<Rightarrow> (int \<Rightarrow> real) \<Rightarrow> (int \<Rightarrow> bool) \<Rightarrow> bool \<Rightarrow> real
     \<Rightarrow> int \<Rightarrow> real \<Rightarrow> rk_outcome" where
  "rk_time_step matrix_solver neq_dp error_fn_given is_embedded residual_norm solve is_linear
       newton_tol newton_max_iter newton_max_allowed_residual_norm =
     (if matrix_solver \<noteq> SOLVER_UMFPACK then
        Fatal_error ''Sorry, rk_time_step() still only works with UMFpack.''
      else if neq_dp > 1 then
        Fatal_error ''Sorry, rk_time_step() does not work with systems yet.''
      else if error_fn_given \<and> \<not> is_embedded then
        Fatal_error ''rk_time_step(): R-K method must be embedded if temporal error estimate is requested.''
      else
        (case Newton_loop residual_norm solve is_linear newton_tol newton_max_iter
                newton_max_allowed_residual_norm 1 of
           Newton_return_false \<Rightarrow> Returned False
         | Newton_solver_failed \<Rightarrow> Fatal_error ''Matrix solver failed.''
         | Newton_break it \<Rightarrow> if it \<ge> newton_max_iter then Returned False else Returned True))"

section \<open>Selective assembler (discrete\_problem\_selective\_assembler.cpp)\<close>

text \<open>
  The assembler's members. Matrices and vectors are identified by their address; a vector
  also answers \<open>get_size()\<close>. \<open>block_weights\<close> is the optional table read through
  \<open>get_A\<close>.
\<close>

record SelectiveAssembler =
  sp_seq :: "int list option"
  spaces_size :: nat
  matrix_structure_reusable :: bool
  previous_mat :: "nat option"
  vector_structure_reusable :: bool
  previous_rhs :: "nat option"
  asm_wf :: WeakForm
  force_diagonal_blocks :: bool
  block_weights :: "(nat \<Rightarrow> nat \<Rightarrow> real) option"
  RK_original_spaces_count :: nat

record Vector =
  vec_addr :: nat
  vec_size :: nat

text \<open>The calls made on the sparse matrix and on the vector, in the order they are made.\<close>

datatype event =
    Mat_zero nat
  | Mat_free nat
  | Mat_prealloc nat int
  | Mat_pre_add_ij nat int int
  | Mat_alloc nat
  | Vec_alloc nat int
  | Vec_zero nat

definition SelectiveAssembler_init :: "WeakForm \<Rightarrow> SelectiveAssembler" where
  "SelectiveAssembler_init w =
     \<lparr>sp_seq = None, spaces_size = 0, matrix_structure_reusable = False,
      previous_mat = None, vector_structure_reusable = False, previous_rhs = None,
      asm_wf = w, force_diagonal_blocks = False, block_weights = None,
      RK_original_spaces_count = 0\<rparr>"

text \<open>
  The two innermost loops of the structure pass: every pair of a nonnegative row DOF and a
  nonnegative column DOF is registered.
\<close>

definition register_block :: "nat \<Rightarrow> int list \<Rightarrow> int list \<Rightarrow> event list" where
  "register_block mat dofs_m dofs_n =
     concat (map (\<lambda>di. if di \<ge> 0 then
                          concat (map (\<lambda>dj. if dj \<ge> 0 then [Mat_pre_add_ij mat di dj] else [])
                                      dofs_n)
                        else []) dofs_m)"

definition register_DG_block ::
  "nat \<Rightarrow> bool \<Rightarrow> bool \<Rightarrow> int list \<Rightarrow> int list \<Rightarrow> event list" where
  "register_DG_block mat b_m_el b_el_m am an =
     concat (map (\<lambda>di. if di \<ge> 0 then
                          concat (map (\<lambda>dj. if dj \<ge> 0 then
                                               (if b_m_el then [Mat_pre_add_ij mat di dj] else []) @
                                               (if b_el_m then [Mat_pre_add_ij mat dj di] else [])
                                             else []) an)
                        else []) am)"

text \<open>
  The DG part for one state. The source dereferences \<open>e[0]\<close> and every \<open>e[el]\<close>
  unguarded here, so the model reads them with \<open>the\<close>: the states of a DG problem carry
  an element for every component.
\<close>

definition DG_pass ::
  "nat \<Rightarrow> SpaceHandle list \<Rightarrow> bool list list \<Rightarrow> nat \<Rightarrow> Traverse_State \<Rightarrow> AsmList list
     \<Rightarrow> event list" where
  "DG_pass nsp spaces blocks mat current_state al =
     (let num_edges = nvert (the (st_e current_state ! 0)) in
      concat (map (\<lambda>m. concat (map (\<lambda>el. concat (map (\<lambda>ed.
        if node_bnd (en (the (st_e current_state ! el)) ! ed) then []
        else concat (map (\<lambda>neigh.
               if (blocks ! m ! el \<or> blocks ! el ! m) \<and> st_e current_state ! m \<noteq> None then
                 register_DG_block mat (blocks ! m ! el) (blocks ! el ! m)
                   (al_dof (al ! m))
                   (al_dof (get_element_assembly_list (spaces ! el) neigh))
               else [])
             (get_neighbors (spaces ! el) (the (st_e current_state ! el)) ed)))
        [0..<num_edges])) [0..<nsp])) [0..<nsp]))"

definition local_pass ::
  "nat \<Rightarrow> bool list list \<Rightarrow> nat \<Rightarrow> Traverse_State \<Rightarrow> AsmList list \<Rightarrow> event list" where
  "local_pass nsp blocks mat current_state al =
     (if nsp = 1 then
        (if blocks ! 0 ! 0 \<and> st_e current_state ! 0 \<noteq> None then
           register_block mat (al_dof (al ! 0)) (al_dof (al ! 0))
         else [])
      else
        concat (map (\<lambda>m. concat (map (\<lambda>n.
          if blocks ! m ! n \<and> st_e current_state ! m \<noteq> None \<and> st_e current_state ! n \<noteq> None
          then register_block mat (al_dof (al ! m)) (al_dof (al ! n))
          else []) [0..<nsp])) [0..<nsp]))"

text \<open>
  The assembly lists are refreshed for the components present in the state; an absent
  component keeps the list of an earlier state.
\<close>

definition refresh_al ::
  "nat \<Rightarrow> SpaceHandle list \<Rightarrow> Traverse_State \<Rightarrow> AsmList list \<Rightarrow> AsmList list" where
  "refresh_al nsp spaces current_state al =
     fold (\<lambda>i al. case st_e current_state ! i of
                     None \<Rightarrow> al
                   | Some el \<Rightarrow> al[i := get_element_assembly_list (spaces ! i) el])
          [0..<nsp] al"

fun structure_pass ::
  "nat \<Rightarrow> SpaceHandle list \<Rightarrow> WeakForm \<Rightarrow> bool list list \<Rightarrow> nat \<Rightarrow> Traverse_State list
     \<Rightarrow> AsmList list \<Rightarrow> event list" where
  "structure_pass nsp spaces w blocks mat [] al = []"
| "structure_pass nsp spaces w blocks mat (current_state # states) al =
     (let al' = refresh_al nsp spaces current_state al in
      (if is_DG w \<and> mfDG w \<noteq> [] then DG_pass nsp spaces blocks mat current_state al' else []) @
      local_pass nsp blocks mat current_state al' @
      structure_pass nsp spaces w blocks mat states al')"

text \<open>
  The branch "create the matrix from scratch": the matrix is freed and preallocated for
  the current DOF count, the structure pass registers the nonzero positions of the first
  \<open>num_states\<close> states, starting from empty assembly lists, and the matrix is allocated.
\<close>

definition create_from_scratch ::
  "real \<Rightarrow> SelectiveAssembler \<Rightarrow> nat \<Rightarrow> SpaceHandle list \<Rightarrow> Traverse_State list \<Rightarrow> nat
     \<Rightarrow> event list" where
  "create_from_scratch eps a mat spaces states num_states =
     [Mat_free mat, Mat_prealloc mat (get_num_dofs spaces)] @
     structure_pass (spaces_size a) spaces (asm_wf a)
       (get_blocks eps (asm_wf a) (force_diagonal_blocks a)) mat
       (take num_states states) (replicate (spaces_size a) []) @
     [Mat_alloc mat]"

definition prepare_sparse_structure ::
  "real \<Rightarrow> SelectiveAssembler \<Rightarrow> nat option \<Rightarrow> Vector option \<Rightarrow> SpaceHandle list
     \<Rightarrow> Traverse_State list \<Rightarrow> nat \<Rightarrow> bool \<times> SelectiveAssembler \<times> event list" where
  "prepare_sparse_structure eps a mat rhs spaces states num_states =
     (let ndof = get_num_dofs spaces;
          rhs_addr = map_option vec_addr rhs;
          ev1 = (if matrix_structure_reusable a \<and> mat \<noteq> None \<and> mat = previous_mat a
                 then [Mat_zero (the mat)] else []);
          ev2 = (if vector_structure_reusable a \<and> rhs \<noteq> None \<and> rhs_addr = previous_rhs a
                 then (if vec_size (the rhs) = 0 then [Vec_alloc (the rhs_addr) ndof]
                       else [Vec_zero (the rhs_addr)])
                 else []);
          rebuild_mat = ((\<not> matrix_structure_reusable a \<or> mat \<noteq> previous_mat a) \<and> mat \<noteq> None);
          a1 = (if rebuild_mat then a\<lparr>matrix_structure_reusable := True\<rparr> else a);
          ev3 = (if rebuild_mat then create_from_scratch eps a (the mat) spaces states num_states
                 else []);
          rebuild_rhs = ((\<not> vector_structure_reusable a \<or> rhs_addr \<noteq> previous_rhs a) \<and> rhs \<noteq> None);
          a2 = (if rebuild_rhs then a1\<lparr>vector_structure_reusable := True\<rparr> else a1);
          ev4 = (if rebuild_rhs then [Vec_alloc (the rhs_addr) ndof] else [])
      in (True, a2\<lparr>previous_mat := mat, previous_rhs := rhs_addr\<rparr>, ev1 @ ev2 @ ev3 @ ev4))"

definition set_spaces_step :: "SpaceHandle list \<Rightarrow> nat \<Rightarrow> SelectiveAssembler \<Rightarrow> SelectiveAssembler" where
  "set_spaces_step spacesToSet k a =
     (let new_sp_seq = get_seq (spacesToSet ! k);
          a' = (if new_sp_seq \<noteq> the (sp_seq a) ! k
                then a\<lparr>matrix_structure_reusable := False, vector_structure_reusable := False\<rparr>
                else a)
      in a'\<lparr>sp_seq := Some ((the (sp_seq a'))[k := new_sp_seq])\<rparr>)"

definition set_spaces :: "SelectiveAssembler \<Rightarrow> SpaceHandle list \<Rightarrow> SelectiveAssembler" where
  "set_spaces a spacesToSet =
     (case sp_seq a of
        None \<Rightarrow> a\<lparr>spaces_size := length spacesToSet,
                  sp_seq := Some (replicate (length spacesToSet) (-1))\<rparr>
      | Some seqs \<Rightarrow> fold (set_spaces_step spacesToSet) [0..<spaces_size a] a)"

definition set_weak_formulation :: "SelectiveAssembler \<Rightarrow> WeakForm \<Rightarrow> SelectiveAssembler" where
  "set_weak_formulation a w =
     a\<lparr>asm_wf := w, matrix_structure_reusable := False, vector_structure_reusable := False\<rparr>"

text \<open>The selectivity predicates for matrix forms.\<close>

definition form_to_be_assembled_MatrixForm ::
  "real \<Rightarrow> SelectiveAssembler \<Rightarrow> MatrixForm \<Rightarrow> Traverse_State \<Rightarrow> bool" where
  "form_to_be_assembled_MatrixForm eps a form current_state =
     (if st_e current_state ! form_i form \<noteq> None \<and> st_e current_state ! form_j form \<noteq> None then
        (if \<bar>scaling_factor form\<bar> < eps then False
         else (case block_weights a of
                 None \<Rightarrow> True
               | Some get_A \<Rightarrow>
                   (if \<bar>get_A (form_i form div RK_original_spaces_count a)
                              (form_j form div RK_original_spaces_count a)\<bar> < eps
                    then False else True)))
      else False)"

definition form_to_be_assembled_MatrixFormVol ::
  "real \<Rightarrow> SelectiveAssembler \<Rightarrow> MatrixForm \<Rightarrow> Traverse_State \<Rightarrow> bool" where
  "form_to_be_assembled_MatrixFormVol eps a form current_state =
     (if \<not> form_to_be_assembled_MatrixForm eps a form current_state then False
      else if assembleEverywhere form then True
      else (let this_marker = elem_marker (st_rep current_state)
            in if list_ex (\<lambda>m. m = this_marker) (areas_internal form) then True else False))"

definition form_to_be_assembled_MatrixFormSurf ::
  "real \<Rightarrow> SelectiveAssembler \<Rightarrow> MatrixForm \<Rightarrow> Traverse_State \<Rightarrow> bool" where
  "form_to_be_assembled_MatrixFormSurf eps a form current_state =
     (if \<not> form_to_be_assembled_MatrixForm eps a form current_state then False
      else if node_marker (en (st_rep current_state) ! st_isurf current_state) = 0 then False
      else if assembleEverywhere form then True
      else (let this_marker = node_marker (en (st_rep current_state) ! st_isurf current_state)
            in if list_ex (\<lambda>m. m = this_marker) (areas_internal form) then True else False))"

text \<open>
  Modelled from the spec: the value pass over the matrix volume and surface forms. The
  loop that evaluates the forms of a state is in the thread assembler, which is not among
  the sources at hand; only the selectivity predicates it consults are. In the words of
  the spec, the Selective Assembler "for each mesh traversal state ... decides per-form
  whether it must be evaluated (selectivity predicate)" and then "accumulates numeric
  contributions (value pass) into a shared global matrix". What an evaluated form
  contributes in a state, the entries and their values, is the parameter
  \<open>contribution_vol\<close> for volume forms and \<open>contribution_surf\<close> for surface forms.
\<close>

definition value_pass_state ::
  "real \<Rightarrow> SelectiveAssembler \<Rightarrow> (MatrixForm \<Rightarrow> Traverse_State \<Rightarrow> 'c list)
     \<Rightarrow> (MatrixForm \<Rightarrow> Traverse_State \<Rightarrow> 'c list) \<Rightarrow> Traverse_State \<Rightarrow> 'c list" where
  "value_pass_state eps a contribution_vol contribution_surf current_state =
     concat (map (\<lambda>form. if form_to_be_assembled_MatrixFormVol eps a form current_state
                           then contribution_vol form current_state else [])
                 (mfvol (asm_wf a))) @
     concat (map (\<lambda>form. if form_to_be_assembled_MatrixFormSurf eps a form current_state
                           then contribution_surf form current_state else [])
                 (mfsurf (asm_wf a)))"

definition value_pass ::
  "real \<Rightarrow> SelectiveAssembler \<Rightarrow> (MatrixForm \<Rightarrow> Traverse_State \<Rightarrow> 'c list)
     \<Rightarrow> (MatrixForm \<Rightarrow> Traverse_State \<Rightarrow> 'c list) \<Rightarrow> Traverse_State list \<Rightarrow> 'c list" where
  "value_pass eps a contribution_vol contribution_surf states =
     concat (map (value_pass_state eps a contribution_vol contribution_surf) states)"

text \<open>
  Whether \<open>set_spaces\<close> observes a changed sequence identifier: some space's identifier
  differs from the one stored for it. The first call only sizes the store and observes
  nothing.
\<close>

definition seq_changed :: "SelectiveAssembler \<Rightarrow> SpaceHandle list \<Rightarrow> bool" where
  "seq_changed a spacesToSet =
     (case sp_seq a of
        None \<Rightarrow> False
      | Some seqs \<Rightarrow> list_ex (\<lambda>k. get_seq (spacesToSet ! k) \<noteq> seqs ! k) [0..<spaces_size a])"

text \<open>Predicates on the recorded calls.\<close>

definition registration :: "nat \<Rightarrow> event \<Rightarrow> bool" where
  "registration mat ev =
     (case ev of Mat_pre_add_ij m r c \<Rightarrow> m = mat \<and> 0 \<le> r \<and> 0 \<le> c | _ \<Rightarrow> False)"


definition nonneg_registration :: "event \<Rightarrow> bool" where
  "nonneg_registration ev = (case ev of Mat_pre_add_ij m r c \<Rightarrow> 0 \<le> r \<and> 0 \<le> c | _ \<Rightarrow> True)"

text \<open>
  The calls of the reuse path: the matrix, when given, is zeroed; the vector, when given,
  is allocated if it is empty and zeroed otherwise.
\<close>

definition reuse_calls :: "nat option \<Rightarrow> Vector option \<Rightarrow> int \<Rightarrow> event list" where
  "reuse_calls mat rhs ndof =
     (case mat of None \<Rightarrow> [] | Some m \<Rightarrow> [Mat_zero m]) @
     (case rhs of
        None \<Rightarrow> []
      | Some v \<Rightarrow> if vec_size v = 0 then [Vec_alloc (vec_addr v) ndof] else [Vec_zero (vec_addr v)])"

section \<open>Concrete inputs\<close>

text \<open>
  A one-component DG problem on a triangle with one interior edge, whose neighbour across
  that edge has a constrained DOF, and a space answering with the sequence identifier
  given. They are the inputs at which the theorems on the assembler are run.
\<close>

definition ex_wf :: WeakForm where
  "ex_wf = \<lparr>neq = 1, mfvol = [], mfsurf = [],
            mfDG = [\<lparr>form_i = 0, scaling_factor = 1, assembleEverywhere = False,
                     areas_internal = [], form_j_DG = 0\<rparr>],
            vfvol = [], vfsurf = [], vfDG = []\<rparr>"

definition ex_volume_form :: "real \<Rightarrow> MatrixForm" where
  "ex_volume_form c =
     \<lparr>form_i = 0, scaling_factor = c, assembleEverywhere = True, areas_internal = [],
      form_j = 0, sym = 0\<rparr>"

definition ex_neighbor :: Element where
  "ex_neighbor = \<lparr>elem_id = 1, elem_marker = 1, nvert = 3, vn = [], en = [], active = True\<rparr>"

definition ex_element :: Element where
  "ex_element =
     \<lparr>elem_id = 0, elem_marker = 1, nvert = 3, vn = [],
      en = [\<lparr>node_id = 10, node_ref = 1, node_bnd = True, node_marker = 1,
             node_p1 = 0, node_p2 = 1, constrained_vertex = False\<rparr>,
            \<lparr>node_id = 11, node_ref = 2, node_bnd = False, node_marker = 0,
             node_p1 = 1, node_p2 = 2, constrained_vertex = False\<rparr>,
            \<lparr>node_id = 12, node_ref = 1, node_bnd = True, node_marker = 1,
             node_p1 = 2, node_p2 = 0, constrained_vertex = False\<rparr>],
      active = True\<rparr>"

definition ex_space :: "int \<Rightarrow> SpaceHandle" where
  "ex_space seq =
     \<lparr>get_seq = seq, space_ndof = 6,
      get_element_assembly_list =
        (\<lambda>el. if elem_id el = 0 then [(0, -1, 1), (1, 0, 1)] else [(0, 5, 1), (1, -1, 1)]),
      get_neighbors = (\<lambda>el ed. [ex_neighbor])\<rparr>"

definition ex_state :: Traverse_State where
  "ex_state = \<lparr>st_e = [Some ex_element], st_rep = ex_element, st_isurf = 0\<rparr>"

definition ex_assembler :: SelectiveAssembler where
  "ex_assembler = set_spaces (SelectiveAssembler_init ex_wf) [ex_space 0]"

definition ex_prepared :: SelectiveAssembler where
  "ex_prepared =
     fst (snd (prepare_sparse_structure (1 / 100) ex_assembler (Some 7)
                 (Some \<lparr>vec_addr = 9, vec_size = 0\<rparr>) [ex_space 0] [ex_state] 1))"


definition ex_bc :: "string list \<Rightarrow> real \<Rightarrow> EssentialBoundaryCondition" where
  "ex_bc ms v = \<lparr>bc_markers = ms, value_const = v, current_time = 0\<rparr>"

text \<open>
  A condition listing 65536 distinct markers, none of them \<open>''x''\<close> or the wildcard, and
  the container built from it.
\<close>

definition ex_marker_name :: "nat \<Rightarrow> string" where
  "ex_marker_name n = CHR ''m'' # replicate n CHR ''0''"

definition ex_many_markers :: "string list" where
  "ex_many_markers = map ex_marker_name [0..<65536]"

definition ex_many_bcs :: EssentialBCs where
  "ex_many_bcs =
     \<lparr>all_bcs = [ex_bc ex_many_markers 0], markers = ex_many_markers,
      BCs = replicate 65536 (ex_bc ex_many_markers 0), HermesAnyBC = None\<rparr>"

text \<open>
  A mesh of four triangles for the edge pass. The first has two boundary edges whose
  marker carries an essential condition and one interior edge; the second shares that
  interior edge and has a constrained edge (referenced once, interior, no vertex between
  its end points) and a boundary edge whose marker carries no condition; the third has
  order 0 and the fourth is inactive. Every node is unassigned, the next free DOF is 4,
  and the edge function count holds a stale 7. Then the values the edge pass may change,
  and the same space with the container of 65536 markers.
\<close>

definition ex_element2 :: Element where
  "ex_element2 =
     \<lparr>elem_id = 1, elem_marker = 1, nvert = 3, vn = [],
      en = [\<lparr>node_id = 11, node_ref = 2, node_bnd = False, node_marker = 0,
             node_p1 = 1, node_p2 = 2, constrained_vertex = False\<rparr>,
            \<lparr>node_id = 13, node_ref = 1, node_bnd = False, node_marker = 0,
             node_p1 = 2, node_p2 = 3, constrained_vertex = False\<rparr>,
            \<lparr>node_id = 14, node_ref = 1, node_bnd = True, node_marker = 2,
             node_p1 = 3, node_p2 = 1, constrained_vertex = False\<rparr>],
      active = True\<rparr>"

definition ex_element3 :: "nat \<Rightarrow> bool \<Rightarrow> Element" where
  "ex_element3 k a =
     \<lparr>elem_id = k, elem_marker = 1, nvert = 3, vn = [],
      en = [\<lparr>node_id = 15, node_ref = 1, node_bnd = True, node_marker = 1,
             node_p1 = 4, node_p2 = 5, constrained_vertex = False\<rparr>,
            \<lparr>node_id = 16, node_ref = 2, node_bnd = False, node_marker = 0,
             node_p1 = 5, node_p2 = 6, constrained_vertex = False\<rparr>,
            \<lparr>node_id = 17, node_ref = 1, node_bnd = True, node_marker = 2,
             node_p1 = 6, node_p2 = 4, constrained_vertex = False\<rparr>],
      active = a\<rparr>"

definition ex_h1_space :: Space where
  "ex_h1_space =
     \<lparr>mesh = \<lparr>elements = [ex_element, ex_element2, ex_element3 2 True, ex_element3 3 False],
              peek_vertex_node = (\<lambda>a b. None),
              get_user_marker = (\<lambda>k. if k = 1 then ''Dirichlet'' else ''Inner'')\<rparr>,
      ndata = (\<lambda>k. \<lparr>nd_dof = -2, nd_n = 1, vertex_bc_coef = None, baselist = [],
                     ncomponents = 0\<rparr>),
      next_dof = 4, vertex_functions_count = 4, edge_functions_count = 7,
      essential_bcs = Some \<lparr>all_bcs = [ex_bc [''Dirichlet''] 0], markers = [''Dirichlet''],
                            BCs = [ex_bc [''Dirichlet''] 0], HermesAnyBC = None\<rparr>,
      H2D_UNASSIGNED_DOF = -2, H2D_CONSTRAINED_DOF = -1,
      get_element_order = (\<lambda>k. if k = 2 then 0 else 3), get_edge_order_internal = (\<lambda>k. 3)\<rparr>"

definition edge_pass_summary :: "Space \<Rightarrow> (int \<times> int) list \<times> int \<times> int" where
  "edge_pass_summary sp =
     (map (\<lambda>k. (nd_dof (ndata sp k), nd_n (ndata sp k))) [10, 11, 12, 13, 14, 15, 16, 17],
      next_dof sp, edge_functions_count sp)"

definition ex_h1_space_many :: Space where
  "ex_h1_space_many = ex_h1_space\<lparr>essential_bcs := Some ex_many_bcs\<rparr>"



section \<open>Properties of the form registry\<close>

lemma length_set_block: "length (set_block b r c) = length b"
  by (simp add: set_block_def)



lemma length_row_set_block: "length (set_block b r c ! k) = length (b ! k)"
  by (cases "k < length b"; cases "r = k") (simp_all add: set_block_def list_update_beyond)

lemma nth_set_block:
  assumes "i < length b" and "j < length (b ! i)"
  shows "set_block b r c ! i ! j = (b ! i ! j \<or> (r = i \<and> c = j))"
  using assms by (cases "r = i"; cases "c = j") (simp_all add: set_block_def)

lemma square_set_block: "square_blocks n b \<Longrightarrow> square_blocks n (set_block b r c)"
  by (simp add: square_blocks_def length_set_block length_row_set_block)

lemma square_init_blocks: "square_blocks n (init_blocks n fdb)"
  by (simp add: square_blocks_def init_blocks_def Let_def)

lemma nth_init_blocks:
  "i < n \<Longrightarrow> j < n \<Longrightarrow> init_blocks n fdb ! i ! j = (fdb \<and> i = j)"
  by (cases "i = j") (simp_all add: init_blocks_def Let_def)

lemma square_mark_mfvol: "square_blocks n b \<Longrightarrow> square_blocks n (mark_mfvol eps f b)"
  by (simp add: mark_mfvol_def Let_def square_set_block)

lemma square_mark_mfsurf: "square_blocks n b \<Longrightarrow> square_blocks n (mark_mfsurf eps f b)"
  by (simp add: mark_mfsurf_def square_set_block)

lemma square_mark_mfDG: "square_blocks n b \<Longrightarrow> square_blocks n (mark_mfDG eps f b)"
  by (simp add: mark_mfDG_def square_set_block)

lemma square_fold:
  assumes "\<And>f b. square_blocks n b \<Longrightarrow> square_blocks n (g f b)"
  shows "square_blocks n b \<Longrightarrow> square_blocks n (fold g fs b)"
  by (induction fs arbitrary: b) (simp_all add: assms)

lemma nth_mark_mfvol:
  assumes "square_blocks n b" "i < n" "j < n"
  shows "mark_mfvol eps f b ! i ! j =
     (b ! i ! j \<or> (\<bar>scaling_factor f\<bar> > eps \<and> form_i f = i \<and> form_j f = j) \<or>
      (sym f \<noteq> 0 \<and> \<bar>scaling_factor f\<bar> > eps \<and> form_i f = j \<and> form_j f = i))"
proof -
  have len: "i < length b" "j < length (b ! i)"
    using assms by (simp_all add: square_blocks_def)
  have len': "i < length (set_block b (form_i f) (form_j f))"
    "j < length (set_block b (form_i f) (form_j f) ! i)"
    using len by (simp_all add: length_set_block length_row_set_block)
  show ?thesis
    using len len' by (auto simp: mark_mfvol_def Let_def nth_set_block)
qed

lemma nth_mark_mfsurf:
  assumes "square_blocks n b" "i < n" "j < n"
  shows "mark_mfsurf eps f b ! i ! j =
     (b ! i ! j \<or> (\<bar>scaling_factor f\<bar> > eps \<and> form_i f = i \<and> form_j f = j))"
proof -
  have len: "i < length b" "j < length (b ! i)"
    using assms by (simp_all add: square_blocks_def)
  show ?thesis
    using len by (auto simp: mark_mfsurf_def nth_set_block)
qed

lemma nth_mark_mfDG:
  assumes "square_blocks n b" "i < n" "j < n"
  shows "mark_mfDG eps f b ! i ! j =
     (b ! i ! j \<or> (\<bar>scaling_factor f\<bar> > eps \<and> form_i f = i \<and> form_j_DG f = j))"
proof -
  have len: "i < length b" "j < length (b ! i)"
    using assms by (simp_all add: square_blocks_def)
  show ?thesis
    using len by (auto simp: mark_mfDG_def nth_set_block)
qed

lemma nth_fold_mark_mfvol:
  assumes "i < n" "j < n"
  shows "square_blocks n b \<Longrightarrow> fold (mark_mfvol eps) fs b ! i ! j =
     (b ! i ! j \<or> (\<exists>f \<in> set fs. \<bar>scaling_factor f\<bar> > eps \<and> form_i f = i \<and> form_j f = j) \<or>
      (\<exists>f \<in> set fs. sym f \<noteq> 0 \<and> \<bar>scaling_factor f\<bar> > eps \<and> form_i f = j \<and> form_j f = i))"
proof (induction fs arbitrary: b)
  case Nil
  then show ?case by simp
next
  case (Cons f fs)
  have sq: "square_blocks n (mark_mfvol eps f b)"
    using Cons.prems by (rule square_mark_mfvol)
  show ?case
    using Cons.IH [OF sq] nth_mark_mfvol [OF Cons.prems assms, of eps f]
    by auto
qed

lemma nth_fold_mark_mfsurf:
  assumes "i < n" "j < n"
  shows "square_blocks n b \<Longrightarrow> fold (mark_mfsurf eps) fs b ! i ! j =
     (b ! i ! j \<or> (\<exists>f \<in> set fs. \<bar>scaling_factor f\<bar> > eps \<and> form_i f = i \<and> form_j f = j))"
proof (induction fs arbitrary: b)
  case Nil
  then show ?case by simp
next
  case (Cons f fs)
  have sq: "square_blocks n (mark_mfsurf eps f b)"
    using Cons.prems by (rule square_mark_mfsurf)
  show ?case
    using Cons.IH [OF sq] nth_mark_mfsurf [OF Cons.prems assms, of eps f]
    by auto
qed

lemma nth_fold_mark_mfDG:
  assumes "i < n" "j < n"
  shows "square_blocks n b \<Longrightarrow> fold (mark_mfDG eps) fs b ! i ! j =
     (b ! i ! j \<or> (\<exists>f \<in> set fs. \<bar>scaling_factor f\<bar> > eps \<and> form_i f = i \<and> form_j_DG f = j))"
proof (induction fs arbitrary: b)
  case Nil
  then show ?case by simp
next
  case (Cons f fs)
  have sq: "square_blocks n (mark_mfDG eps f b)"
    using Cons.prems by (rule square_mark_mfDG)
  show ?case
    using Cons.IH [OF sq] nth_mark_mfDG [OF Cons.prems assms, of eps f]
    by auto
qed

lemma square_get_blocks: "square_blocks (neq w) (get_blocks eps w fdb)"
  unfolding get_blocks_def
  by (intro square_fold square_mark_mfDG square_mark_mfsurf square_mark_mfvol square_init_blocks)

lemma nth_get_blocks:
  assumes "i < neq w" "j < neq w"
  shows "get_blocks eps w fdb ! i ! j =
     ((fdb \<and> i = j) \<or>
      (\<exists>f \<in> set (mfvol w). \<bar>scaling_factor f\<bar> > eps \<and> form_i f = i \<and> form_j f = j) \<or>
      (\<exists>f \<in> set (mfsurf w). \<bar>scaling_factor f\<bar> > eps \<and> form_i f = i \<and> form_j f = j) \<or>
      (\<exists>f \<in> set (mfDG w). \<bar>scaling_factor f\<bar> > eps \<and> form_i f = i \<and> form_j_DG f = j) \<or>
      (\<exists>f \<in> set (mfvol w). sym f \<noteq> 0 \<and> \<bar>scaling_factor f\<bar> > eps \<and> form_i f = j \<and> form_j f = i))"
proof -
  let ?b0 = "init_blocks (neq w) fdb"
  let ?b1 = "fold (mark_mfvol eps) (mfvol w) ?b0"
  let ?b2 = "fold (mark_mfsurf eps) (mfsurf w) ?b1"
  have sq0: "square_blocks (neq w) ?b0" by (rule square_init_blocks)
  have sq1: "square_blocks (neq w) ?b1"
    by (intro square_fold square_mark_mfvol sq0)
  have sq2: "square_blocks (neq w) ?b2"
    by (intro square_fold square_mark_mfsurf sq1)
  show ?thesis
    unfolding get_blocks_def
    by (simp only: nth_fold_mark_mfDG [OF assms sq2] nth_fold_mark_mfsurf [OF assms sq1]
        nth_fold_mark_mfvol [OF assms sq0] nth_init_blocks [OF assms]) blast
qed

section \<open>Selectivity and block sparsity\<close>


lemma mark_mfvol_small:
  "\<not> \<bar>scaling_factor f\<bar> > eps \<Longrightarrow> mark_mfvol eps f b = b"
  by (simp add: mark_mfvol_def)

lemma get_blocks_drop_small_mfvol:
  assumes "\<not> \<bar>scaling_factor f\<bar> > eps"
  shows "get_blocks eps (w\<lparr>mfvol := fs1 @ f # fs2\<rparr>) fdb = get_blocks eps (w\<lparr>mfvol := fs1 @ fs2\<rparr>) fdb"
  by (simp add: get_blocks_def mark_mfvol_small [OF assms])

lemma structure_pass_cong_wf:
  assumes "is_DG w1 = is_DG w2" "mfDG w1 = mfDG w2"
  shows "structure_pass nsp spaces w1 blocks mat states al =
         structure_pass nsp spaces w2 blocks mat states al"
  by (induction states arbitrary: al) (simp_all add: assms Let_def)

lemma prepare_events_drop_small_mfvol:
  assumes "\<not> \<bar>scaling_factor f\<bar> > eps"
  shows "snd (snd (prepare_sparse_structure eps (a\<lparr>asm_wf := w\<lparr>mfvol := fs1 @ f # fs2\<rparr>\<rparr>)
                     mat rhs spaces states num_states)) =
         snd (snd (prepare_sparse_structure eps (a\<lparr>asm_wf := w\<lparr>mfvol := fs1 @ fs2\<rparr>\<rparr>)
                     mat rhs spaces states num_states))"
proof -
  have sp: "structure_pass nsp spaces (w\<lparr>mfvol := fs1 @ f # fs2\<rparr>) blocks m sts al =
            structure_pass nsp spaces (w\<lparr>mfvol := fs1 @ fs2\<rparr>) blocks m sts al"
    for nsp blocks m sts al
    by (rule structure_pass_cong_wf) (simp_all add: is_DG_def)
  show ?thesis
    by (simp add: prepare_sparse_structure_def create_from_scratch_def Let_def sp get_blocks_drop_small_mfvol [OF assms])
qed

lemma form_to_be_assembled_wf:
  "form_to_be_assembled_MatrixFormVol eps (a\<lparr>asm_wf := w\<rparr>) f st =
     form_to_be_assembled_MatrixFormVol eps a f st"
  "form_to_be_assembled_MatrixFormSurf eps (a\<lparr>asm_wf := w\<rparr>) f st =
     form_to_be_assembled_MatrixFormSurf eps a f st"
proof -
  have base: "form_to_be_assembled_MatrixForm eps (a\<lparr>asm_wf := w\<rparr>) f st =
      form_to_be_assembled_MatrixForm eps a f st"
    by (simp add: form_to_be_assembled_MatrixForm_def split: option.splits)
  show "form_to_be_assembled_MatrixFormVol eps (a\<lparr>asm_wf := w\<rparr>) f st =
     form_to_be_assembled_MatrixFormVol eps a f st"
    by (simp add: form_to_be_assembled_MatrixFormVol_def base)
  show "form_to_be_assembled_MatrixFormSurf eps (a\<lparr>asm_wf := w\<rparr>) f st =
     form_to_be_assembled_MatrixFormSurf eps a f st"
    by (simp add: form_to_be_assembled_MatrixFormSurf_def base)
qed

lemma value_pass_drop_small_mfvol:
  assumes "\<bar>scaling_factor f\<bar> < eps"
  shows "value_pass eps (a\<lparr>asm_wf := w\<lparr>mfvol := fs1 @ f # fs2\<rparr>\<rparr>) cv cs states =
         value_pass eps (a\<lparr>asm_wf := w\<lparr>mfvol := fs1 @ fs2\<rparr>\<rparr>) cv cs states"
proof -
  have "\<not> form_to_be_assembled_MatrixFormVol eps a f st" for st
    using assms
    by (simp add: form_to_be_assembled_MatrixFormVol_def form_to_be_assembled_MatrixForm_def)
  then have "value_pass_state eps (a\<lparr>asm_wf := w\<lparr>mfvol := fs1 @ f # fs2\<rparr>\<rparr>) cv cs st =
             value_pass_state eps (a\<lparr>asm_wf := w\<lparr>mfvol := fs1 @ fs2\<rparr>\<rparr>) cv cs st" for st
    by (simp add: value_pass_state_def form_to_be_assembled_wf)
  then have "value_pass_state eps (a\<lparr>asm_wf := w\<lparr>mfvol := fs1 @ f # fs2\<rparr>\<rparr>) cv cs =
             value_pass_state eps (a\<lparr>asm_wf := w\<lparr>mfvol := fs1 @ fs2\<rparr>\<rparr>) cv cs"
    by (rule ext)
  then show ?thesis
    by (simp only: value_pass_def)
qed

text \<open>
  Claim C3. A matrix volume form whose scaling factor is 0, or of magnitude below the
  threshold, is never to be assembled, whatever the traversal state and the assembler;
  it sets no entry of the block matrix (\<open>get_blocks\<close> is the same with the form
  removed from the registry); the calls of the structure pass on the matrix are the same
  with the form removed; and so are the contributions of the value pass, whatever the
  forms contribute when they are evaluated.
\<close>

theorem zero_scaling_form_never_contributes:
  assumes "0 < eps" and "scaling_factor form = 0 \<or> \<bar>scaling_factor form\<bar> < eps"
  shows "\<not> form_to_be_assembled_MatrixFormVol eps a form current_state \<and>
         get_blocks eps (w\<lparr>mfvol := fs1 @ form # fs2\<rparr>) fdb =
           get_blocks eps (w\<lparr>mfvol := fs1 @ fs2\<rparr>) fdb \<and>
         snd (snd (prepare_sparse_structure eps (a\<lparr>asm_wf := w\<lparr>mfvol := fs1 @ form # fs2\<rparr>\<rparr>)
                     mat rhs spaces states num_states)) =
         snd (snd (prepare_sparse_structure eps (a\<lparr>asm_wf := w\<lparr>mfvol := fs1 @ fs2\<rparr>\<rparr>)
                     mat rhs spaces states num_states)) \<and>
         value_pass eps (a\<lparr>asm_wf := w\<lparr>mfvol := fs1 @ form # fs2\<rparr>\<rparr>)
             contribution_vol contribution_surf states =
         value_pass eps (a\<lparr>asm_wf := w\<lparr>mfvol := fs1 @ fs2\<rparr>\<rparr>)
             contribution_vol contribution_surf states"
proof -
  have small: "\<bar>scaling_factor form\<bar> < eps"
    using assms by auto
  then have notbig: "\<not> \<bar>scaling_factor form\<bar> > eps"
    by simp
  have "\<not> form_to_be_assembled_MatrixForm eps a form current_state"
    using small by (simp add: form_to_be_assembled_MatrixForm_def)
  then have "\<not> form_to_be_assembled_MatrixFormVol eps a form current_state"
    by (simp add: form_to_be_assembled_MatrixFormVol_def)
  then show ?thesis
    using get_blocks_drop_small_mfvol [OF notbig] prepare_events_drop_small_mfvol [OF notbig]
      value_pass_drop_small_mfvol [OF small]
    by blast
qed

theorem zero_scaling_form_never_contributes_witness:
  "\<not> form_to_be_assembled_MatrixFormVol (1 / 100) ex_assembler (ex_volume_form 0) ex_state \<and>
   get_blocks (1 / 100) (ex_wf\<lparr>mfvol := [ex_volume_form 0]\<rparr>) False = [[True]] \<and>
   get_blocks (1 / 100) (ex_wf\<lparr>mfDG := [], mfvol := [ex_volume_form 0]\<rparr>) False = [[False]] \<and>
   get_blocks (1 / 100) (ex_wf\<lparr>mfDG := [], mfvol := [ex_volume_form 1]\<rparr>) False = [[True]] \<and>
   value_pass (1 / 100) (ex_assembler\<lparr>asm_wf := ex_wf\<lparr>mfvol := [ex_volume_form 1, ex_volume_form 0]\<rparr>\<rparr>)
       (\<lambda>form st. [(form_i form, form_j form, scaling_factor form)]) (\<lambda>form st. []) [ex_state] =
     [(0, 0, 1)] \<and>
   value_pass (1 / 100) (ex_assembler\<lparr>asm_wf := ex_wf\<lparr>mfvol := [ex_volume_form 0]\<rparr>\<rparr>)
       (\<lambda>form st. [(form_i form, form_j form, scaling_factor form)]) (\<lambda>form st. []) [ex_state] = []"
proof -
  have pos: "(0::real) < 1 / 100" by simp
  have small: "scaling_factor (ex_volume_form 0) = 0 \<or> \<bar>scaling_factor (ex_volume_form 0)\<bar> < 1 / 100"
    by (simp add: ex_volume_form_def)
  have b1: "get_blocks (1 / 100) (ex_wf\<lparr>mfvol := []\<rparr>) False = [[True]]"
    by code_simp
  have b2: "get_blocks (1 / 100) (ex_wf\<lparr>mfDG := [], mfvol := []\<rparr>) False = [[False]]"
    by code_simp
  have b3: "get_blocks (1 / 100) (ex_wf\<lparr>mfDG := [], mfvol := [ex_volume_form 1]\<rparr>) False = [[True]]"
    by code_simp
  have v1: "value_pass (1 / 100) (ex_assembler\<lparr>asm_wf := ex_wf\<lparr>mfvol := [ex_volume_form 1]\<rparr>\<rparr>)
       (\<lambda>form st. [(form_i form, form_j form, scaling_factor form)]) (\<lambda>form st. []) [ex_state] =
     [(0, 0, 1)]"
    by code_simp
  have v0: "value_pass (1 / 100) (ex_assembler\<lparr>asm_wf := ex_wf\<lparr>mfvol := []\<rparr>\<rparr>)
       (\<lambda>form st. [(form_i form, form_j form, scaling_factor form)]) (\<lambda>form st. []) [ex_state] = []"
    by code_simp
  show ?thesis
    using zero_scaling_form_never_contributes [OF pos small,
        where a = ex_assembler and current_state = ex_state and w = ex_wf
          and ?fs1.0 = "[]" and ?fs2.0 = "[]" and fdb = False and states = "[ex_state]"
          and contribution_vol = "\<lambda>form st. [(form_i form, form_j form, scaling_factor form)]"
          and contribution_surf = "\<lambda>form st. []"]
      zero_scaling_form_never_contributes [OF pos small,
        where a = ex_assembler and current_state = ex_state and w = "ex_wf\<lparr>mfDG := []\<rparr>"
          and ?fs1.0 = "[]" and ?fs2.0 = "[]" and fdb = False and states = "[ex_state]"
          and contribution_vol = "\<lambda>form st. [(form_i form, form_j form, scaling_factor form)]"
          and contribution_surf = "\<lambda>form st. []"]
      zero_scaling_form_never_contributes [OF pos small,
        where a = ex_assembler and current_state = ex_state and w = ex_wf
          and ?fs1.0 = "[ex_volume_form 1]" and ?fs2.0 = "[]" and fdb = False and states = "[ex_state]"
          and contribution_vol = "\<lambda>form st. [(form_i form, form_j form, scaling_factor form)]"
          and contribution_surf = "\<lambda>form st. []"]
      b1 b2 b3 v1 v0
    by simp
qed

text \<open>
  Claim C5, as amended. \<open>get_blocks\<close> returns \<open>neq\<close> rows of \<open>neq\<close> entries, and the
  entry \<open>(r, c)\<close> is true exactly when the diagonal is forced and \<open>r = c\<close>, or a volume,
  surface or DG matrix form above the threshold has the indices \<open>(r, c)\<close>, or a volume
  matrix form with a nonzero symmetry flag (symmetric or antisymmetric) above the
  threshold has the indices \<open>(c, r)\<close>.
\<close>

theorem get_blocks_marks:
  assumes "forms_in_range w" and "r < neq w" and "c < neq w"
  shows "length (get_blocks eps w fdb) = neq w \<and>
         length (get_blocks eps w fdb ! r) = neq w \<and>
         (get_blocks eps w fdb ! r ! c \<longleftrightarrow>
            ((fdb \<and> r = c) \<or>
             (\<exists>f \<in> set (mfvol w). \<bar>scaling_factor f\<bar> > eps \<and> form_i f = r \<and> form_j f = c) \<or>
             (\<exists>f \<in> set (mfsurf w). \<bar>scaling_factor f\<bar> > eps \<and> form_i f = r \<and> form_j f = c) \<or>
             (\<exists>f \<in> set (mfDG w). \<bar>scaling_factor f\<bar> > eps \<and> form_i f = r \<and> form_j_DG f = c) \<or>
             (\<exists>f \<in> set (mfvol w).
                 sym f \<noteq> 0 \<and> \<bar>scaling_factor f\<bar> > eps \<and> form_i f = c \<and> form_j f = r)))"
proof -
  have sq: "square_blocks (neq w) (get_blocks eps w fdb)"
    by (rule square_get_blocks)
  then have "length (get_blocks eps w fdb) = neq w"
    and "length (get_blocks eps w fdb ! r) = neq w"
    using assms(2) by (simp_all add: square_blocks_def)
  then show ?thesis
    using nth_get_blocks [OF assms(2,3), of eps fdb] by simp
qed

theorem get_blocks_marks_witness:
  "get_blocks (1 / 100)
     \<lparr>neq = 2,
      mfvol = [\<lparr>form_i = 0, scaling_factor = 1, assembleEverywhere = True, areas_internal = [],
                form_j = 1, sym = 1\<rparr>],
      mfsurf = [], mfDG = [], vfvol = [], vfsurf = [], vfDG = []\<rparr> False ! 1 ! 0"
proof -
  let ?w = "\<lparr>neq = 2,
      mfvol = [\<lparr>form_i = 0, scaling_factor = 1, assembleEverywhere = True, areas_internal = [],
                form_j = 1, sym = 1\<rparr>],
      mfsurf = [], mfDG = [], vfvol = [], vfsurf = [], vfDG = []\<rparr>"
  have a: "forms_in_range ?w" by (simp add: forms_in_range_def)
  have b: "1 < neq ?w" by simp
  have c: "0 < neq ?w" by simp
  show ?thesis
    using get_blocks_marks [OF a b c, of "1 / 100" False] by simp
qed

text \<open>
  The claim as first stated lets only symmetric forms mark the transposed block. An
  antisymmetric volume form, which \<open>add_matrix_form\<close> accepts off the diagonal, marks
  it as well.
\<close>

theorem get_blocks_antisym_counterexample:
  "add_matrix_form \<lparr>neq = 2, mfvol = [], mfsurf = [], mfDG = [], vfvol = [], vfsurf = [], vfDG = []\<rparr>
     \<lparr>form_i = 0, scaling_factor = 1, assembleEverywhere = True, areas_internal = [],
      form_j = 1, sym = -1\<rparr> =
   Inr \<lparr>neq = 2,
        mfvol = [\<lparr>form_i = 0, scaling_factor = 1, assembleEverywhere = True, areas_internal = [],
                  form_j = 1, sym = -1\<rparr>],
        mfsurf = [], mfDG = [], vfvol = [], vfsurf = [], vfDG = []\<rparr> \<and>
   get_blocks (1 / 100)
     \<lparr>neq = 2,
      mfvol = [\<lparr>form_i = 0, scaling_factor = 1, assembleEverywhere = True, areas_internal = [],
                form_j = 1, sym = -1\<rparr>],
      mfsurf = [], mfDG = [], vfvol = [], vfsurf = [], vfDG = []\<rparr> False ! 1 ! 0 \<noteq>
   spec_block_marked (1 / 100)
     \<lparr>neq = 2,
      mfvol = [\<lparr>form_i = 0, scaling_factor = 1, assembleEverywhere = True, areas_internal = [],
                form_j = 1, sym = -1\<rparr>],
      mfsurf = [], mfDG = [], vfvol = [], vfsurf = [], vfDG = []\<rparr> False 1 0"
  by (simp add: add_matrix_form_def get_blocks_def init_blocks_def mark_mfvol_def set_block_def
      spec_block_marked_def)

section \<open>Sparse structure: registration, reuse and rebuild\<close>


lemma list_all_concat_map:
  assumes "\<And>x. x \<in> set xs \<Longrightarrow> list_all P (f x)"
  shows "list_all P (concat (map f xs))"
  using assms by (induction xs) simp_all

lemma register_block_registrations: "list_all (registration mat) (register_block mat ds1 ds2)"
  unfolding register_block_def
  by (auto intro!: list_all_concat_map simp: registration_def)

lemma register_DG_block_registrations:
  "list_all (registration mat) (register_DG_block mat b1 b2 ds1 ds2)"
  unfolding register_DG_block_def
  by (auto intro!: list_all_concat_map simp: registration_def)

lemma DG_pass_registrations: "list_all (registration mat) (DG_pass nsp spaces blocks mat st al)"
  unfolding DG_pass_def Let_def
  by (intro list_all_concat_map) (simp_all add: register_DG_block_registrations list_all_concat_map)

lemma local_pass_registrations: "list_all (registration mat) (local_pass nsp blocks mat st al)"
  unfolding local_pass_def
  by (simp add: register_block_registrations list_all_concat_map)

lemma structure_pass_registrations:
  "list_all (registration mat) (structure_pass nsp spaces w blocks mat states al)"
  by (induction states arbitrary: al)
     (simp_all add: Let_def DG_pass_registrations local_pass_registrations)


lemma registration_nonneg: "registration mat ev \<Longrightarrow> nonneg_registration ev"
  by (cases ev) (simp_all add: registration_def nonneg_registration_def)


lemma structure_pass_nonneg:
  "list_all nonneg_registration (structure_pass nsp spaces w blocks mat states al)"
  using structure_pass_registrations [of mat nsp spaces w blocks states al]
  by (auto simp: list_all_iff registration_nonneg)

text \<open>
  Claim C6. Whatever the assembler, the matrix, the vector, the spaces and the states,
  every \<open>pre_add_ij\<close> call that \<open>prepare_sparse_structure\<close> makes has a nonnegative row
  and a nonnegative column: the element block loops and the DG neighbour loops both
  skip the negative DOFs of the assembly lists.
\<close>

theorem pre_add_ij_never_negative:
  "\<forall>ev \<in> set (snd (snd (prepare_sparse_structure eps a mat rhs spaces states num_states))).
      case ev of Mat_pre_add_ij m r c \<Rightarrow> 0 \<le> r \<and> 0 \<le> c | _ \<Rightarrow> True"
proof -
  have "list_all nonneg_registration
          (snd (snd (prepare_sparse_structure eps a mat rhs spaces states num_states)))"
    by (simp add: prepare_sparse_structure_def create_from_scratch_def Let_def
        structure_pass_nonneg)
       (simp add: nonneg_registration_def)
  then show ?thesis
    by (simp add: list_all_iff nonneg_registration_def)
qed


theorem pre_add_ij_never_negative_witness:
  "snd (snd (prepare_sparse_structure (1 / 100) ex_assembler (Some 7) None [ex_space 0]
               [ex_state] 1)) =
   [Mat_free 7, Mat_prealloc 7 6, Mat_pre_add_ij 7 0 5, Mat_pre_add_ij 7 5 0,
    Mat_pre_add_ij 7 0 0, Mat_alloc 7]"
proof -
  have run: ?thesis
    by code_simp
  show ?thesis
    using pre_add_ij_never_negative [of "1 / 100" ex_assembler "Some 7" None "[ex_space 0]"
        "[ex_state]" 1] run
    by simp
qed

lemma set_spaces_step_fields:
  "previous_mat (set_spaces_step sp k a) = previous_mat a"
  "previous_rhs (set_spaces_step sp k a) = previous_rhs a"
  "spaces_size (set_spaces_step sp k a) = spaces_size a"
  "asm_wf (set_spaces_step sp k a) = asm_wf a"
  "force_diagonal_blocks (set_spaces_step sp k a) = force_diagonal_blocks a"
  by (simp_all add: set_spaces_step_def Let_def)

lemma set_spaces_fold:
  assumes "sp_seq a = Some seqs"
  shows "\<exists>seqs'. sp_seq (fold (set_spaces_step sp) ks a) = Some seqs' \<and>
           (\<forall>k. k \<notin> set ks \<longrightarrow> seqs' ! k = seqs ! k) \<and>
           previous_mat (fold (set_spaces_step sp) ks a) = previous_mat a \<and>
           previous_rhs (fold (set_spaces_step sp) ks a) = previous_rhs a \<and>
           spaces_size (fold (set_spaces_step sp) ks a) = spaces_size a \<and>
           asm_wf (fold (set_spaces_step sp) ks a) = asm_wf a \<and>
           force_diagonal_blocks (fold (set_spaces_step sp) ks a) = force_diagonal_blocks a \<and>
           (distinct ks \<longrightarrow>
             matrix_structure_reusable (fold (set_spaces_step sp) ks a) =
               (matrix_structure_reusable a \<and> (\<forall>k \<in> set ks. get_seq (sp ! k) = seqs ! k)) \<and>
             vector_structure_reusable (fold (set_spaces_step sp) ks a) =
               (vector_structure_reusable a \<and> (\<forall>k \<in> set ks. get_seq (sp ! k) = seqs ! k)))"
  using assms
proof (induction ks arbitrary: a seqs)
  case Nil
  then show ?case by simp
next
  case (Cons k ks)
  let ?a1 = "set_spaces_step sp k a"
  have s1: "sp_seq ?a1 = Some (seqs[k := get_seq (sp ! k)])"
    using Cons.prems by (simp add: set_spaces_step_def Let_def)
  have m1: "matrix_structure_reusable ?a1 =
      (matrix_structure_reusable a \<and> get_seq (sp ! k) = seqs ! k)"
    and v1: "vector_structure_reusable ?a1 =
      (vector_structure_reusable a \<and> get_seq (sp ! k) = seqs ! k)"
    using Cons.prems by (auto simp: set_spaces_step_def Let_def)
  from Cons.IH [OF s1] obtain seqs' where
    IH: "sp_seq (fold (set_spaces_step sp) ks ?a1) = Some seqs'"
      "\<forall>j. j \<notin> set ks \<longrightarrow> seqs' ! j = seqs[k := get_seq (sp ! k)] ! j"
      "previous_mat (fold (set_spaces_step sp) ks ?a1) = previous_mat ?a1"
      "previous_rhs (fold (set_spaces_step sp) ks ?a1) = previous_rhs ?a1"
      "spaces_size (fold (set_spaces_step sp) ks ?a1) = spaces_size ?a1"
      "asm_wf (fold (set_spaces_step sp) ks ?a1) = asm_wf ?a1"
      "force_diagonal_blocks (fold (set_spaces_step sp) ks ?a1) = force_diagonal_blocks ?a1"
      "distinct ks \<longrightarrow>
         matrix_structure_reusable (fold (set_spaces_step sp) ks ?a1) =
           (matrix_structure_reusable ?a1 \<and>
            (\<forall>j \<in> set ks. get_seq (sp ! j) = seqs[k := get_seq (sp ! k)] ! j)) \<and>
         vector_structure_reusable (fold (set_spaces_step sp) ks ?a1) =
           (vector_structure_reusable ?a1 \<and>
            (\<forall>j \<in> set ks. get_seq (sp ! j) = seqs[k := get_seq (sp ! k)] ! j))"
    by blast
  have others: "\<forall>j. j \<notin> set (k # ks) \<longrightarrow> seqs' ! j = seqs ! j"
    using IH(2) by auto
  have flags: "distinct (k # ks) \<longrightarrow>
      matrix_structure_reusable (fold (set_spaces_step sp) ks ?a1) =
        (matrix_structure_reusable a \<and> (\<forall>j \<in> set (k # ks). get_seq (sp ! j) = seqs ! j)) \<and>
      vector_structure_reusable (fold (set_spaces_step sp) ks ?a1) =
        (vector_structure_reusable a \<and> (\<forall>j \<in> set (k # ks). get_seq (sp ! j) = seqs ! j))"
  proof
    assume d: "distinct (k # ks)"
    then have "\<forall>j \<in> set ks. k \<noteq> j"
      by auto
    then have eq: "\<forall>j \<in> set ks. seqs[k := get_seq (sp ! k)] ! j = seqs ! j"
      by simp
    show "matrix_structure_reusable (fold (set_spaces_step sp) ks ?a1) =
        (matrix_structure_reusable a \<and> (\<forall>j \<in> set (k # ks). get_seq (sp ! j) = seqs ! j)) \<and>
      vector_structure_reusable (fold (set_spaces_step sp) ks ?a1) =
        (vector_structure_reusable a \<and> (\<forall>j \<in> set (k # ks). get_seq (sp ! j) = seqs ! j))"
      using IH(8) d eq m1 v1 by auto
  qed
  show ?case
    using IH(1,3-7) others flags by (simp add: set_spaces_step_fields)
qed

lemma set_spaces_all:
  "(matrix_structure_reusable (set_spaces a sp) =
     (matrix_structure_reusable a \<and> \<not> seq_changed a sp)) \<and>
   (vector_structure_reusable (set_spaces a sp) =
     (vector_structure_reusable a \<and> \<not> seq_changed a sp)) \<and>
   previous_mat (set_spaces a sp) = previous_mat a \<and>
   previous_rhs (set_spaces a sp) = previous_rhs a \<and>
   asm_wf (set_spaces a sp) = asm_wf a \<and>
   force_diagonal_blocks (set_spaces a sp) = force_diagonal_blocks a"
proof (cases "sp_seq a")
  case None
  then show ?thesis
    by (simp add: set_spaces_def seq_changed_def)
next
  case (Some seqs)
  from set_spaces_fold [OF Some, of sp "[0..<spaces_size a]"]
  show ?thesis
    using Some by (auto simp: set_spaces_def seq_changed_def list_ex_iff)
qed

lemma set_spaces_flags:
  "matrix_structure_reusable (set_spaces a sp) =
     (matrix_structure_reusable a \<and> \<not> seq_changed a sp)"
  "vector_structure_reusable (set_spaces a sp) =
     (vector_structure_reusable a \<and> \<not> seq_changed a sp)"
  "previous_mat (set_spaces a sp) = previous_mat a"
  "previous_rhs (set_spaces a sp) = previous_rhs a"
  "asm_wf (set_spaces a sp) = asm_wf a"
  "force_diagonal_blocks (set_spaces a sp) = force_diagonal_blocks a"
  using set_spaces_all [of a sp] by blast+





lemma prepare_returns_true:
  "fst (prepare_sparse_structure eps a mat rhs spaces states num_states) = True"
  by (simp add: prepare_sparse_structure_def Let_def)

lemma prepare_state:
  "previous_mat (fst (snd (prepare_sparse_structure eps a mat rhs spaces states num_states))) = mat"
  "previous_rhs (fst (snd (prepare_sparse_structure eps a mat rhs spaces states num_states))) =
     map_option vec_addr rhs"
  "mat \<noteq> None \<Longrightarrow>
     matrix_structure_reusable
       (fst (snd (prepare_sparse_structure eps a mat rhs spaces states num_states)))"
  "rhs \<noteq> None \<Longrightarrow>
     vector_structure_reusable
       (fst (snd (prepare_sparse_structure eps a mat rhs spaces states num_states)))"
  by (auto simp: prepare_sparse_structure_def Let_def)

lemma prepare_reuse_events:
  assumes "previous_mat a = mat" and "previous_rhs a = map_option vec_addr rhs"
    and "mat \<noteq> None \<longrightarrow> matrix_structure_reusable a"
    and "rhs \<noteq> None \<longrightarrow> vector_structure_reusable a"
  shows "snd (snd (prepare_sparse_structure eps a mat rhs spaces states num_states)) =
           reuse_calls mat rhs (get_num_dofs spaces)"
  using assms
  by (cases mat; cases rhs) (simp_all add: prepare_sparse_structure_def Let_def reuse_calls_def)






lemma ex_prepare_run:
  "prepare_sparse_structure (1 / 100) ex_assembler (Some 7)
       (Some \<lparr>vec_addr = 9, vec_size = 0\<rparr>) [ex_space 0] [ex_state] 1 =
     (True, ex_prepared,
      [Mat_free 7, Mat_prealloc 7 6, Mat_pre_add_ij 7 0 5, Mat_pre_add_ij 7 5 0,
       Mat_pre_add_ij 7 0 0, Mat_alloc 7, Vec_alloc 9 6])"
proof -
  have ev: "snd (snd (prepare_sparse_structure (1 / 100) ex_assembler (Some 7)
       (Some \<lparr>vec_addr = 9, vec_size = 0\<rparr>) [ex_space 0] [ex_state] 1)) =
      [Mat_free 7, Mat_prealloc 7 6, Mat_pre_add_ij 7 0 5, Mat_pre_add_ij 7 5 0,
       Mat_pre_add_ij 7 0 0, Mat_alloc 7, Vec_alloc 9 6]"
    by code_simp
  show ?thesis
    using ev prepare_returns_true [of "1 / 100" ex_assembler "Some 7"
        "Some \<lparr>vec_addr = 9, vec_size = 0\<rparr>" "[ex_space 0]" "[ex_state]" 1]
    by (simp add: ex_prepared_def prod_eq_iff)
qed



text \<open>
  Claim C10. \<open>prepare_sparse_structure\<close> returns true. Afterwards \<open>previous_mat\<close> and
  \<open>previous_rhs\<close> are the arguments just passed, the matrix flag is set when the matrix
  is not null and the vector flag when the vector is not null; so the next call with the
  same objects, directly or after a \<open>set_spaces\<close> that observes no change, makes the
  calls of the reuse path only.
\<close>

theorem prepare_sparse_structure_always_true:
  assumes "prepare_sparse_structure eps a mat rhs spaces states num_states = (ok, a', evs)"
  shows "ok = True \<and> previous_mat a' = mat \<and> previous_rhs a' = map_option vec_addr rhs \<and>
         (mat \<noteq> None \<longrightarrow> matrix_structure_reusable a') \<and>
         (rhs \<noteq> None \<longrightarrow> vector_structure_reusable a') \<and>
         (\<forall>rhs' spaces' states' num_states'.
            map_option vec_addr rhs' = map_option vec_addr rhs \<longrightarrow>
            snd (snd (prepare_sparse_structure eps a' mat rhs' spaces' states' num_states')) =
              reuse_calls mat rhs' (get_num_dofs spaces') \<and>
            (\<not> seq_changed a' spaces' \<longrightarrow>
             snd (snd (prepare_sparse_structure eps (set_spaces a' spaces') mat rhs' spaces'
                         states' num_states')) =
               reuse_calls mat rhs' (get_num_dofs spaces')))"
proof -
  have ok: "ok = True"
    using prepare_returns_true [of eps a mat rhs spaces states num_states] assms by simp
  have a': "a' = fst (snd (prepare_sparse_structure eps a mat rhs spaces states num_states))"
    using assms by simp
  have pm: "previous_mat a' = mat" and pr: "previous_rhs a' = map_option vec_addr rhs"
    unfolding a' by (rule prepare_state)+
  have fm: "mat \<noteq> None \<longrightarrow> matrix_structure_reusable a'"
    and fv: "rhs \<noteq> None \<longrightarrow> vector_structure_reusable a'"
    unfolding a' by (simp_all add: prepare_state)
  have next_call: "snd (snd (prepare_sparse_structure eps a' mat rhs' spaces' states' num_states')) =
              reuse_calls mat rhs' (get_num_dofs spaces') \<and>
            (\<not> seq_changed a' spaces' \<longrightarrow>
             snd (snd (prepare_sparse_structure eps (set_spaces a' spaces') mat rhs' spaces'
                         states' num_states')) =
               reuse_calls mat rhs' (get_num_dofs spaces'))"
    if same: "map_option vec_addr rhs' = map_option vec_addr rhs"
    for rhs' spaces' states' num_states'
  proof -
    have pr': "previous_rhs a' = map_option vec_addr rhs'"
      using pr same by simp
    have fv': "rhs' \<noteq> None \<longrightarrow> vector_structure_reusable a'"
      using fv same by (cases rhs; cases rhs') simp_all
    have direct: "snd (snd (prepare_sparse_structure eps a' mat rhs' spaces' states' num_states')) =
              reuse_calls mat rhs' (get_num_dofs spaces')"
      by (rule prepare_reuse_events [OF pm pr' fm fv'])
    have after: "snd (snd (prepare_sparse_structure eps (set_spaces a' spaces') mat rhs' spaces'
                         states' num_states')) =
               reuse_calls mat rhs' (get_num_dofs spaces')"
      if "\<not> seq_changed a' spaces'"
      by (rule prepare_reuse_events) (use that pm pr' fm fv' in \<open>simp_all add: set_spaces_flags\<close>)
    show ?thesis
      using direct after by blast
  qed
  show ?thesis
    using ok pm pr fm fv next_call by blast
qed

theorem prepare_sparse_structure_always_true_witness:
  "previous_mat ex_prepared = Some 7 \<and> previous_rhs ex_prepared = Some 9 \<and>
   matrix_structure_reusable ex_prepared \<and> vector_structure_reusable ex_prepared \<and>
   snd (snd (prepare_sparse_structure (1 / 100) ex_prepared
       (Some 7) (Some \<lparr>vec_addr = 9, vec_size = 6\<rparr>) [ex_space 0] [ex_state] 1)) =
     [Mat_zero 7, Vec_zero 9] \<and>
   \<not> seq_changed ex_prepared [ex_space (-1)] \<and>
   snd (snd (prepare_sparse_structure (1 / 100) (set_spaces ex_prepared [ex_space (-1)])
       (Some 7) (Some \<lparr>vec_addr = 9, vec_size = 6\<rparr>) [ex_space (-1)] [ex_state] 1)) =
     [Mat_zero 7, Vec_zero 9]"
proof -
  have unchanged: "\<not> seq_changed ex_prepared [ex_space (-1)]"
    by code_simp
  have same: "map_option vec_addr (Some \<lparr>vec_addr = 9, vec_size = 6\<rparr>) =
      map_option vec_addr (Some \<lparr>vec_addr = 9, vec_size = 0\<rparr>)"
    by simp
  show ?thesis
    using prepare_sparse_structure_always_true [OF ex_prepare_run] unchanged same
    by (simp add: reuse_calls_def get_num_dofs_def)
qed




section \<open>Essential boundary conditions: lookup and rejection\<close>

lemma unat_succ16:
  assumes "unat (i :: 16 word) < n" and "n \<le> 65535"
  shows "unat (i + 1) = Suc (unat i)"
proof -
  have "unat i + unat (1 :: 16 word) < 2 ^ LENGTH(16)"
    using assms by simp
  then show ?thesis
    by (simp add: unat_add_lem [THEN iffD1])
qed

lemma find_marker_absent_from:
  assumes "length ms \<le> 65535"
  shows "(\<forall>j. unat i \<le> j \<and> j < length ms \<longrightarrow> ms ! j \<noteq> m) \<Longrightarrow> find_marker ms m i = Some None"
proof (induction "length ms - unat i" arbitrary: i)
  case 0
  then show ?case
    by (subst find_marker.simps) simp
next
  case (Suc d)
  then have lt: "unat i < length ms" by simp
  have step: "unat (i + 1) = Suc (unat i)"
    by (rule unat_succ16 [OF lt assms])
  have d: "d = length ms - unat (i + 1)"
    using Suc.hyps(2) step by simp
  have rest: "\<forall>j. unat (i + 1) \<le> j \<and> j < length ms \<longrightarrow> ms ! j \<noteq> m"
    using Suc.prems step by simp
  have here: "ms ! unat i \<noteq> m"
    using Suc.prems lt by simp
  show ?case
    using Suc.hyps(1) [OF d rest] lt here by (subst find_marker.simps) simp
qed

lemma find_marker_present_from:
  assumes "length ms \<le> 65535" and "k < length ms" and "ms ! k = m"
  shows "unat i \<le> k \<Longrightarrow> (\<forall>j. unat i \<le> j \<and> j < k \<longrightarrow> ms ! j \<noteq> m) \<Longrightarrow>
         find_marker ms m i = Some (Some k)"
proof (induction "k - unat i" arbitrary: i)
  case 0
  then have "unat i = k" by simp
  then show ?case
    using assms by (subst find_marker.simps) simp
next
  case (Suc d)
  then have lt: "unat i < k" by simp
  then have lt': "unat i < length ms" using assms(2) by simp
  have step: "unat (i + 1) = Suc (unat i)"
    by (rule unat_succ16 [OF lt' assms(1)])
  have d: "d = k - unat (i + 1)"
    using Suc.hyps(2) step by simp
  have le: "unat (i + 1) \<le> k"
    using lt step by simp
  have rest: "\<forall>j. unat (i + 1) \<le> j \<and> j < k \<longrightarrow> ms ! j \<noteq> m"
    using Suc.prems(2) step by simp
  have here: "ms ! unat i \<noteq> m"
    using Suc.prems(2) lt by simp
  show ?case
    using Suc.hyps(1) [OF d le rest] lt' here by (subst find_marker.simps) simp
qed

lemma find_marker_absent:
  "length ms \<le> 65535 \<Longrightarrow> m \<notin> set ms \<Longrightarrow> find_marker ms m 0 = Some None"
  by (rule find_marker_absent_from) (auto simp: in_set_conv_nth)

lemma find_marker_first:
  assumes "length ms \<le> 65535" and "k < length ms" and "ms ! k = m"
    and "\<forall>j < k. ms ! j \<noteq> m"
  shows "find_marker ms m 0 = Some (Some k)"
  by (rule find_marker_present_from [OF assms(1-3)]) (use assms(4) in simp_all)

lemma find_marker_distinct:
  assumes "length ms \<le> 65535" and "k < length ms" and "distinct ms"
  shows "find_marker ms (ms ! k) 0 = Some (Some k)"
proof (rule find_marker_first [OF assms(1,2) refl])
  show "\<forall>j<k. ms ! j \<noteq> ms ! k"
    using assms(2,3) by (auto simp: nth_eq_iff_index_eq)
qed

lemma find_marker_member:
  assumes "length ms \<le> 65535" and "m \<in> set ms"
  shows "\<exists>k. find_marker ms m 0 = Some (Some k)"
proof -
  define k where "k = (LEAST j. j < length ms \<and> ms ! j = m)"
  have ex: "\<exists>j. j < length ms \<and> ms ! j = m"
    using assms(2) by (auto simp: in_set_conv_nth)
  then have k: "k < length ms \<and> ms ! k = m"
    unfolding k_def by (rule LeastI_ex)
  have "\<forall>j<k. ms ! j \<noteq> m"
  proof (intro allI impI notI)
    fix j assume "j < k" and "ms ! j = m"
    then have "j < length ms \<and> ms ! j = m" using k by simp
    then have "k \<le> j" unfolding k_def by (rule Least_le)
    then show False using \<open>j < k\<close> by simp
  qed
  then have "find_marker ms m 0 = Some (Some k)"
    using k by (intro find_marker_first [OF assms(1)]) simp_all
  then show ?thesis ..
qed

lemma find_marker_wraps:
  assumes "find_marker ms m i = Some y"
  shows "\<not> (65536 \<le> length ms \<and> (\<forall>j < 65536. ms ! j \<noteq> m))"
proof (rule find_marker.raw_induct
    [where P = "\<lambda>ms m i y. \<not> (65536 \<le> length ms \<and> (\<forall>j < 65536. ms ! j \<noteq> m))", OF _ assms])
  fix f :: "string list \<Rightarrow> string \<Rightarrow> 16 word \<Rightarrow> nat option option"
    and ms m and i :: "16 word" and y
  assume IH: "\<And>ms m i y. f ms m i = Some y \<Longrightarrow>
      \<not> (65536 \<le> length ms \<and> (\<forall>j < 65536. ms ! j \<noteq> m))"
    and step: "(if unat i < length ms
      then if ms ! unat i = m then Some (Some (unat i)) else f ms m (i + 1)
      else Some None) = Some y"
  show "\<not> (65536 \<le> length ms \<and> (\<forall>j < 65536. ms ! j \<noteq> m))"
  proof
    assume big: "65536 \<le> length ms \<and> (\<forall>j < 65536. ms ! j \<noteq> m)"
    have "unat i < 2 ^ LENGTH(16)"
      by (rule unsigned_less)
    then have lt: "unat i < 65536"
      by simp
    then have "unat i < length ms" and "ms ! unat i \<noteq> m"
      using big by simp_all
    then have "f ms m (i + 1) = Some y"
      using step by simp
    from IH [OF this] big show False
      by simp
  qed
qed

lemma find_marker_never_returns:
  assumes "65536 \<le> length ms" and "\<forall>j < 65536. ms ! j \<noteq> m"
  shows "find_marker ms m i = None"
proof (cases "find_marker ms m i")
  case None
  then show ?thesis .
next
  case (Some y)
  from find_marker_wraps [OF Some] assms show ?thesis
    by simp
qed


lemma cache_pairs_append:
  "cache_pairs (xs @ ys) c =
     (case cache_pairs xs c of
        None \<Rightarrow> None
      | Some (Inl ex) \<Rightarrow> Some (Inl ex)
      | Some (Inr c') \<Rightarrow> cache_pairs ys c')"
  by (induction xs arbitrary: c) (auto split: option.splits sum.splits)

lemma cache_markers_pairs: "cache_markers bc its c = cache_pairs (map (\<lambda>m. (bc, m)) its) c"
  by (induction its arbitrary: c) (auto split: option.splits sum.splits)

lemma cache_conditions_pairs: "cache_conditions bcs c = cache_pairs (marker_pairs bcs) c"
  by (induction bcs arbitrary: c)
     (auto simp: marker_pairs_def cache_pairs_append cache_markers_pairs
           split: option.splits sum.splits)

lemma cache_pairs_char:
  assumes "length ps \<le> 65536"
  shows "\<exists>r. cache_pairs ps \<lparr>hermes_any_set = False, any_set = None,
                              cache = s0\<lparr>markers := [], BCs := []\<rparr>\<rparr> = Some r \<and>
             (\<forall>c. r = Inr c \<longrightarrow> cache_inv s0 ps c) \<and>
             (HERMES_ANY \<notin> set (map snd ps) \<and> distinct (map snd ps) \<longrightarrow> (\<exists>c. r = Inr c))"
  using assms
proof (induction ps rule: rev_induct)
  case Nil
  show ?case by (simp add: cache_inv_def)
next
  case (snoc p ps)
  let ?c0 = "\<lparr>hermes_any_set = False, any_set = None, cache = s0\<lparr>markers := [], BCs := []\<rparr>\<rparr>"
  obtain b m where p: "p = (b, m)" by (cases p)
  have len: "length ps \<le> 65536" and len': "length (map snd ps) \<le> 65535"
    using snoc.prems by simp_all
  from snoc.IH [OF len] obtain r where
    r: "cache_pairs ps ?c0 = Some r" and inv: "\<forall>c. r = Inr c \<longrightarrow> cache_inv s0 ps c"
    and succ: "HERMES_ANY \<notin> set (map snd ps) \<and> distinct (map snd ps) \<longrightarrow> (\<exists>c. r = Inr c)"
    by blast
  show ?case
  proof (cases r)
    case (Inl ex)
    then have "\<not> (HERMES_ANY \<notin> set (map snd ps) \<and> distinct (map snd ps))"
      using succ by auto
    then have "\<not> (HERMES_ANY \<notin> set (map snd (ps @ [p])) \<and> distinct (map snd (ps @ [p])))"
      by auto
    then show ?thesis
      using r Inl by (simp add: cache_pairs_append)
  next
    case (Inr c)
    then have ci: "cache_inv s0 ps c" using inv by simp
    have run: "cache_pairs (ps @ [p]) ?c0 =
        (case cache_marker b m c of None \<Rightarrow> None | Some (Inl ex) \<Rightarrow> Some (Inl ex)
         | Some (Inr c') \<Rightarrow> Some (Inr c'))"
      using r Inr p by (simp add: cache_pairs_append split: option.splits sum.splits)
    show ?thesis
    proof (cases "hermes_any_set c")
      case True
      with ci have "HERMES_ANY \<in> set (map snd ps)"
        by (auto simp: cache_inv_def)
      then have "\<not> (HERMES_ANY \<notin> set (map snd (ps @ [p])) \<and> distinct (map snd (ps @ [p])))"
        by auto
      then show ?thesis
        unfolding run using True by (simp add: cache_marker_def)
    next
      case False
      with ci have c1: "HERMES_ANY \<notin> set (map snd ps)" "distinct (map snd ps)"
        "any_set c = (if ps = [] then None else Some (fst (last ps)))"
        "cache c = s0\<lparr>markers := map snd ps, BCs := map fst ps\<rparr>"
        by (auto simp: cache_inv_def)
      show ?thesis
      proof (cases "m = HERMES_ANY")
        case True
        then have no: "\<not> (HERMES_ANY \<notin> set (map snd (ps @ [p])) \<and> distinct (map snd (ps @ [p])))"
          using p by simp
        show ?thesis
        proof (cases "ps = []")
          case True
          then show ?thesis
            unfolding run using False \<open>m = HERMES_ANY\<close> c1 p
            by (simp add: cache_marker_def cache_inv_def)
        next
          case False
          then show ?thesis
            unfolding run using \<open>\<not> hermes_any_set c\<close> \<open>m = HERMES_ANY\<close> c1 no
            by (simp add: cache_marker_def)
        qed
      next
        case notany: False
        show ?thesis
        proof (cases "m \<in> set (map snd ps)")
          case True
          then have no: "\<not> (HERMES_ANY \<notin> set (map snd (ps @ [p])) \<and> distinct (map snd (ps @ [p])))"
            using p by simp
          from find_marker_member [OF len' True] obtain k where
            "find_marker (map snd ps) m 0 = Some (Some k)" ..
          then show ?thesis
            unfolding run using False notany c1 no by (simp add: cache_marker_def)
        next
          case notin: False
          have "find_marker (map snd ps) m 0 = Some None"
            by (rule find_marker_absent [OF len' notin])
          then show ?thesis
            unfolding run using False notany notin c1 p
            by (simp add: cache_marker_def cache_inv_def)
        qed
      qed
    qed
  qed
qed


lemma set_marker_pairs:
  "(b, m) \<in> set (marker_pairs bcs) \<longleftrightarrow> b \<in> set bcs \<and> m \<in> set (bc_markers b)"
  by (auto simp: marker_pairs_def)

lemma map_snd_marker_pairs: "map snd (marker_pairs bcs) = concat (map bc_markers bcs)"
  by (induction bcs) (simp_all add: marker_pairs_def comp_def)

lemma length_marker_pairs: "length (marker_pairs bcs) = length (concat (map bc_markers bcs))"
  using map_snd_marker_pairs [of bcs, THEN arg_cong, of length] by simp

lemma EssentialBCs_new_char:
  assumes "length (concat (map bc_markers bcs)) \<le> 65536"
  shows "\<exists>r. EssentialBCs_new bcs = Some r \<and>
           (\<forall>s. r = Inr s \<longrightarrow>
              (\<exists>c. s = cache c \<and>
                 cache_inv (EssentialBCs_empty\<lparr>all_bcs := bcs\<rparr>) (marker_pairs bcs) c)) \<and>
           (HERMES_ANY \<notin> set (concat (map bc_markers bcs)) \<and>
            distinct (concat (map bc_markers bcs)) \<longrightarrow> (\<exists>s. r = Inr s))"
proof -
  let ?s0 = "EssentialBCs_empty\<lparr>all_bcs := bcs\<rparr>"
  have len: "length (marker_pairs bcs) \<le> 65536"
    using assms by (simp add: length_marker_pairs)
  from cache_pairs_char [OF len, of ?s0] obtain r where
    r: "cache_pairs (marker_pairs bcs)
          \<lparr>hermes_any_set = False, any_set = None, cache = ?s0\<lparr>markers := [], BCs := []\<rparr>\<rparr> = Some r"
    and inv: "\<forall>c. r = Inr c \<longrightarrow> cache_inv ?s0 (marker_pairs bcs) c"
    and succ: "HERMES_ANY \<notin> set (map snd (marker_pairs bcs)) \<and>
        distinct (map snd (marker_pairs bcs)) \<longrightarrow> (\<exists>c. r = Inr c)"
    by blast
  have new: "EssentialBCs_new bcs =
      (case r of Inl ex \<Rightarrow> Some (Inl ex) | Inr c \<Rightarrow> Some (Inr (cache c)))"
    using r
    by (simp add: EssentialBCs_new_def add_boundary_conditions_def create_marker_cache_def
        cache_conditions_pairs EssentialBCs_empty_def split: sum.splits)
  show ?thesis
  proof (cases r)
    case (Inl ex)
    then show ?thesis using new succ by (simp add: map_snd_marker_pairs)
  next
    case (Inr c)
    then show ?thesis using new inv by auto
  qed
qed

text \<open>
  Claim C9, as amended. For a container built from the conditions \<open>bcs\<close> whose markers are
  together at most 65535 (what the 16-bit search counter can index): if the construction
  succeeds and a condition lists the wildcard, \<open>get_boundary_condition\<close> returns that
  condition for every marker; if it succeeds and no condition lists the wildcard, it
  returns the condition that lists the marker, and null when none does. The construction
  throws when a wildcard condition is mixed with a specific marker, and when a marker is
  listed twice; it succeeds when the markers are distinct and none is the wildcard.
\<close>

theorem get_boundary_condition_lookup:
  assumes "length (concat (map bc_markers bcs)) \<le> 65535"
  shows "(EssentialBCs_new bcs = Some (Inr s) \<longrightarrow>
           (\<forall>b \<in> set bcs. HERMES_ANY \<in> set (bc_markers b) \<longrightarrow>
              get_boundary_condition s marker = Some (Some b)) \<and>
           ((\<forall>b \<in> set bcs. HERMES_ANY \<notin> set (bc_markers b)) \<longrightarrow>
              (\<forall>b \<in> set bcs. marker \<in> set (bc_markers b) \<longrightarrow>
                 get_boundary_condition s marker = Some (Some b)) \<and>
              ((\<forall>b \<in> set bcs. marker \<notin> set (bc_markers b)) \<longrightarrow>
                 get_boundary_condition s marker = Some None))) \<and>
         ((\<exists>b \<in> set bcs. HERMES_ANY \<in> set (bc_markers b)) \<and>
          (\<exists>b \<in> set bcs. \<exists>m \<in> set (bc_markers b). m \<noteq> HERMES_ANY) \<longrightarrow>
            (\<exists>ex. EssentialBCs_new bcs = Some (Inl ex))) \<and>
         (\<not> distinct (concat (map bc_markers bcs)) \<longrightarrow>
            (\<exists>ex. EssentialBCs_new bcs = Some (Inl ex))) \<and>
         (HERMES_ANY \<notin> set (concat (map bc_markers bcs)) \<and>
          distinct (concat (map bc_markers bcs)) \<longrightarrow>
            (\<exists>s'. EssentialBCs_new bcs = Some (Inr s')))"
proof -
  let ?s0 = "EssentialBCs_empty\<lparr>all_bcs := bcs\<rparr>"
  let ?ps = "marker_pairs bcs"
  let ?ms = "concat (map bc_markers bcs)"
  have assms': "length (concat (map bc_markers bcs)) \<le> 65536"
    using assms by simp
  from EssentialBCs_new_char [OF assms'] obtain r where
    r: "EssentialBCs_new bcs = Some r"
    and inv: "\<forall>s. r = Inr s \<longrightarrow> (\<exists>c. s = cache c \<and> cache_inv ?s0 ?ps c)"
    and succ: "HERMES_ANY \<notin> set ?ms \<and> distinct ?ms \<longrightarrow> (\<exists>s. r = Inr s)"
    by blast
  have ms: "map snd ?ps = ?ms"
    by (rule map_snd_marker_pairs)
  have part1: "get_boundary_condition s marker = Some (Some b)"
    if ok: "EssentialBCs_new bcs = Some (Inr s)" and b: "b \<in> set bcs"
      and any: "HERMES_ANY \<in> set (bc_markers b)" for b
  proof -
    from ok r inv obtain c where c: "s = cache c" "cache_inv ?s0 ?ps c" by auto
    have mem: "(b, HERMES_ANY) \<in> set ?ps"
      using b any by (simp add: set_marker_pairs)
    then have "HERMES_ANY \<in> set (map snd ?ps)"
      by force
    with c(2) obtain b' where b': "?ps = [(b', HERMES_ANY)]"
      "cache c = ?s0\<lparr>markers := [], BCs := [], HermesAnyBC := Some b'\<rparr>"
      unfolding cache_inv_def by blast
    from mem b'(1) have "b' = b" by simp
    then show ?thesis
      using c(1) b'(2) by (simp add: get_boundary_condition_def)
  qed
  have part2: "(\<forall>b \<in> set bcs. marker \<in> set (bc_markers b) \<longrightarrow>
                 get_boundary_condition s marker = Some (Some b)) \<and>
              ((\<forall>b \<in> set bcs. marker \<notin> set (bc_markers b)) \<longrightarrow>
                 get_boundary_condition s marker = Some None)"
    if ok: "EssentialBCs_new bcs = Some (Inr s)"
      and noany: "\<forall>b \<in> set bcs. HERMES_ANY \<notin> set (bc_markers b)"
  proof -
    from ok r inv obtain c where c: "s = cache c" "cache_inv ?s0 ?ps c" by auto
    have "\<not> (\<exists>b. ?ps = [(b, HERMES_ANY)])"
    proof
      assume "\<exists>b. ?ps = [(b, HERMES_ANY)]"
      then obtain b where "?ps = [(b, HERMES_ANY)]" ..
      then have "(b, HERMES_ANY) \<in> set ?ps" by simp
      then show False using noany by (auto simp: set_marker_pairs)
    qed
    with c(2) have d: "distinct ?ms" and cc: "cache c = ?s0\<lparr>markers := ?ms, BCs := map fst ?ps\<rparr>"
      unfolding cache_inv_def ms by auto
    have s: "HermesAnyBC s = None" "markers s = ?ms" "BCs s = map fst ?ps"
      using c(1) cc by (simp_all add: EssentialBCs_empty_def)
    have found: "get_boundary_condition s marker = Some (Some b)"
      if b: "b \<in> set bcs" and m: "marker \<in> set (bc_markers b)" for b
    proof -
      have "(b, marker) \<in> set ?ps"
        using b m by (simp add: set_marker_pairs)
      then obtain k where k: "k < length ?ps" "?ps ! k = (b, marker)"
        by (auto simp: in_set_conv_nth)
      have k': "k < length ?ms"
        using k(1) by (simp add: length_marker_pairs)
      have "?ms ! k = marker"
        using k ms [symmetric] by simp
      then have "find_marker ?ms marker 0 = Some (Some k)"
        using find_marker_distinct [OF assms k' d] by simp
      then show ?thesis
        using s k by (simp add: get_boundary_condition_def)
    qed
    have absent: "get_boundary_condition s marker = Some None"
      if "\<forall>b \<in> set bcs. marker \<notin> set (bc_markers b)"
    proof -
      have "marker \<notin> set ?ms" using that by auto
      then have "find_marker ?ms marker 0 = Some None"
        by (rule find_marker_absent [OF assms])
      then show ?thesis
        using s by (simp add: get_boundary_condition_def)
    qed
    show ?thesis using found absent by blast
  qed
  have part3: "\<exists>ex. EssentialBCs_new bcs = Some (Inl ex)"
    if any: "\<exists>b \<in> set bcs. HERMES_ANY \<in> set (bc_markers b)"
      and other: "\<exists>b \<in> set bcs. \<exists>m \<in> set (bc_markers b). m \<noteq> HERMES_ANY"
  proof (cases r)
    case (Inl ex)
    then show ?thesis using r by simp
  next
    case (Inr s')
    with inv obtain c where c: "cache_inv ?s0 ?ps c" by auto
    from any have "HERMES_ANY \<in> set (map snd ?ps)"
      unfolding ms by auto
    with c obtain b' where b': "?ps = [(b', HERMES_ANY)]"
      unfolding cache_inv_def by blast
    from other obtain b m where "b \<in> set bcs" "m \<in> set (bc_markers b)" "m \<noteq> HERMES_ANY"
      by blast
    then have "(b, m) \<in> set ?ps" by (simp add: set_marker_pairs)
    with b' \<open>m \<noteq> HERMES_ANY\<close> show ?thesis by simp
  qed
  have part4: "\<exists>ex. EssentialBCs_new bcs = Some (Inl ex)"
    if nd: "\<not> distinct ?ms"
  proof (cases r)
    case (Inl ex)
    then show ?thesis using r by simp
  next
    case (Inr s')
    with inv obtain c where c: "cache_inv ?s0 ?ps c" by auto
    then have "distinct (map snd ?ps)"
      unfolding cache_inv_def by auto
    then show ?thesis using nd ms by simp
  qed
  have part5: "\<exists>s'. EssentialBCs_new bcs = Some (Inr s')"
    if "HERMES_ANY \<notin> set ?ms \<and> distinct ?ms"
    using succ that r by auto
  show ?thesis
    using part1 part2 part3 part4 part5 by blast
qed

lemma ex_new_any:
  "EssentialBCs_new [ex_bc [HERMES_ANY] 1] =
     Some (Inr \<lparr>all_bcs = [ex_bc [HERMES_ANY] 1], markers = [], BCs = [],
                HermesAnyBC = Some (ex_bc [HERMES_ANY] 1)\<rparr>)"
  by (simp add: EssentialBCs_new_def add_boundary_conditions_def create_marker_cache_def
      EssentialBCs_empty_def cache_marker_def ex_bc_def)

lemma ex_new_specific:
  "EssentialBCs_new [ex_bc [''a''] 0, ex_bc [''b'', ''c''] 1] =
     Some (Inr \<lparr>all_bcs = [ex_bc [''a''] 0, ex_bc [''b'', ''c''] 1],
                markers = [''a'', ''b'', ''c''],
                BCs = [ex_bc [''a''] 0, ex_bc [''b'', ''c''] 1, ex_bc [''b'', ''c''] 1],
                HermesAnyBC = None\<rparr>)"
  by (simp add: EssentialBCs_new_def add_boundary_conditions_def create_marker_cache_def
      EssentialBCs_empty_def cache_marker_def ex_bc_def HERMES_ANY_def find_marker.simps)

theorem get_boundary_condition_lookup_witness:
  "get_boundary_condition
     \<lparr>all_bcs = [ex_bc [HERMES_ANY] 1], markers = [], BCs = [],
      HermesAnyBC = Some (ex_bc [HERMES_ANY] 1)\<rparr> ''x'' = Some (Some (ex_bc [HERMES_ANY] 1)) \<and>
   get_boundary_condition
     \<lparr>all_bcs = [ex_bc [''a''] 0, ex_bc [''b'', ''c''] 1], markers = [''a'', ''b'', ''c''],
      BCs = [ex_bc [''a''] 0, ex_bc [''b'', ''c''] 1, ex_bc [''b'', ''c''] 1],
      HermesAnyBC = None\<rparr> ''c'' = Some (Some (ex_bc [''b'', ''c''] 1)) \<and>
   get_boundary_condition
     \<lparr>all_bcs = [ex_bc [''a''] 0, ex_bc [''b'', ''c''] 1], markers = [''a'', ''b'', ''c''],
      BCs = [ex_bc [''a''] 0, ex_bc [''b'', ''c''] 1, ex_bc [''b'', ''c''] 1],
      HermesAnyBC = None\<rparr> ''z'' = Some None \<and>
   (\<exists>ex. EssentialBCs_new [ex_bc [HERMES_ANY] 1, ex_bc [''a''] 0] = Some (Inl ex)) \<and>
   (\<exists>ex. EssentialBCs_new [ex_bc [''a''] 0, ex_bc [''a''] 1] = Some (Inl ex)) \<and>
   (\<exists>s'. EssentialBCs_new [ex_bc [''a''] 0, ex_bc [''b'', ''c''] 1] = Some (Inr s'))"
proof -
  have l1: "length (concat (map bc_markers [ex_bc [HERMES_ANY] 1])) \<le> 65535"
    and l2: "length (concat (map bc_markers [ex_bc [''a''] 0, ex_bc [''b'', ''c''] 1])) \<le> 65535"
    and l3: "length (concat (map bc_markers [ex_bc [HERMES_ANY] 1, ex_bc [''a''] 0])) \<le> 65535"
    and l4: "length (concat (map bc_markers [ex_bc [''a''] 0, ex_bc [''a''] 1])) \<le> 65535"
    by (simp_all add: ex_bc_def)
  show ?thesis
    using get_boundary_condition_lookup [OF l1, where marker = "''x''"]
      get_boundary_condition_lookup [OF l2, where marker = "''c''"]
      get_boundary_condition_lookup [OF l2, where marker = "''z''"]
      get_boundary_condition_lookup [OF l3, where marker = "''x''"]
      get_boundary_condition_lookup [OF l4, where marker = "''x''"]
      ex_new_any ex_new_specific
    by (simp add: ex_bc_def HERMES_ANY_def)
qed


lemma ex_many_markers_facts:
  "length ex_many_markers = 65536" "distinct ex_many_markers"
  "HERMES_ANY \<notin> set ex_many_markers" "''x'' \<notin> set ex_many_markers"
proof -
  show "length ex_many_markers = 65536"
    by (simp add: ex_many_markers_def)
  have "inj ex_marker_name"
  proof (rule injI)
    fix a b assume "ex_marker_name a = ex_marker_name b"
    then have "length (ex_marker_name a) = length (ex_marker_name b)"
      by simp
    then show "a = b"
      by (simp add: ex_marker_name_def)
  qed
  then show "distinct ex_many_markers"
    unfolding ex_many_markers_def by (simp add: distinct_map inj_on_def inj_def)
  show "HERMES_ANY \<notin> set ex_many_markers"
    by (auto simp: ex_many_markers_def ex_marker_name_def HERMES_ANY_def)
  show "''x'' \<notin> set ex_many_markers"
    by (auto simp: ex_many_markers_def ex_marker_name_def)
qed

lemma ex_many_new: "EssentialBCs_new [ex_bc ex_many_markers 0] = Some (Inr ex_many_bcs)"
proof -
  let ?bcs = "[ex_bc ex_many_markers 0]"
  have ms: "concat (map bc_markers ?bcs) = ex_many_markers"
    by (simp add: ex_bc_def)
  have len: "length (concat (map bc_markers ?bcs)) \<le> 65536"
    unfolding ms by (simp add: ex_many_markers_facts)
  from EssentialBCs_new_char [OF len] obtain r where
    r: "EssentialBCs_new ?bcs = Some r"
    and inv: "\<forall>s. r = Inr s \<longrightarrow>
        (\<exists>c. s = cache c \<and>
           cache_inv (EssentialBCs_empty\<lparr>all_bcs := ?bcs\<rparr>) (marker_pairs ?bcs) c)"
    and succ: "HERMES_ANY \<notin> set (concat (map bc_markers ?bcs)) \<and>
        distinct (concat (map bc_markers ?bcs)) \<longrightarrow> (\<exists>s. r = Inr s)"
    by blast
  from succ obtain s where s: "r = Inr s"
    unfolding ms using ex_many_markers_facts by blast
  with inv obtain c where c: "s = cache c"
    "cache_inv (EssentialBCs_empty\<lparr>all_bcs := ?bcs\<rparr>) (marker_pairs ?bcs) c"
    by blast
  have snd_ps: "map snd (marker_pairs ?bcs) = ex_many_markers"
    using map_snd_marker_pairs [of ?bcs] ms by simp
  have fst_ps: "map fst (marker_pairs ?bcs) = replicate 65536 (ex_bc ex_many_markers 0)"
  proof -
    have "marker_pairs ?bcs = map (\<lambda>m. (ex_bc ex_many_markers 0, m)) ex_many_markers"
      by (simp add: marker_pairs_def ex_bc_def)
    then have "map fst (marker_pairs ?bcs) = map (\<lambda>m. ex_bc ex_many_markers 0) ex_many_markers"
      by (simp add: comp_def)
    also have "\<dots> = replicate (length ex_many_markers) (ex_bc ex_many_markers 0)"
      by (rule map_replicate_const)
    finally show ?thesis
      by (simp add: ex_many_markers_facts)
  qed
  have "\<not> (\<exists>b. marker_pairs ?bcs = [(b, HERMES_ANY)])"
  proof
    assume "\<exists>b. marker_pairs ?bcs = [(b, HERMES_ANY)]"
    then obtain b where "marker_pairs ?bcs = [(b, HERMES_ANY)]" ..
    then have "map snd (marker_pairs ?bcs) = [HERMES_ANY]" by simp
    then have "HERMES_ANY \<in> set (map snd (marker_pairs ?bcs))"
      by simp
    then have "HERMES_ANY \<in> set ex_many_markers"
      by (simp only: snd_ps)
    then show False
      using ex_many_markers_facts(3) by simp
  qed
  with c(2) have "cache c = EssentialBCs_empty\<lparr>all_bcs := ?bcs\<rparr>
      \<lparr>markers := map snd (marker_pairs ?bcs), BCs := map fst (marker_pairs ?bcs)\<rparr>"
    unfolding cache_inv_def by blast
  then have "s = ex_many_bcs"
    unfolding c(1) snd_ps fst_ps by (simp add: EssentialBCs_empty_def ex_many_bcs_def)
  then show ?thesis
    using r s by simp
qed

lemma ex_many_lookup: "get_boundary_condition ex_many_bcs ''x'' = None"
proof -
  have len: "65536 \<le> length ex_many_markers"
    by (simp add: ex_many_markers_facts)
  have "\<forall>j < 65536. ex_many_markers ! j \<noteq> ''x''"
    using ex_many_markers_facts(1,4) by (metis nth_mem)
  from find_marker_never_returns [OF len this, of 0]
  show ?thesis
    by (simp add: get_boundary_condition_def ex_many_bcs_def)
qed

text \<open>
  The claim as first stated fails for a container with 65536 markers: the search counter
  is a 16-bit \<open>unsigned short\<close> and wraps from 65535 to 0 before it can reach the number
  of markers, so the lookup of a marker that no condition lists never returns, where the
  claim has it return null.
\<close>

theorem get_boundary_condition_never_returns_counterexample:
  "length ex_many_markers = 65536 \<and> ''x'' \<notin> set ex_many_markers \<and>
   EssentialBCs_new [ex_bc ex_many_markers 0] = Some (Inr ex_many_bcs) \<and>
   get_boundary_condition ex_many_bcs ''x'' = None"
  using ex_many_markers_facts(1,4) ex_many_new ex_many_lookup
  by simp

lemma marker_pairs_append: "marker_pairs (xs @ ys) = marker_pairs xs @ marker_pairs ys"
  by (simp add: marker_pairs_def)

text \<open>
  Adding conditions to a container that was built successfully is building a container
  from all the conditions, so the statement above covers every container reached through
  \<open>add_boundary_conditions\<close>.
\<close>

lemma add_boundary_conditions_as_new:
  assumes new: "EssentialBCs_new bcs = Some (Inr s)"
    and len: "length (concat (map bc_markers bcs)) \<le> 65535"
  shows "add_boundary_conditions s extra = EssentialBCs_new (bcs @ extra)"
proof -
  let ?s0 = "EssentialBCs_empty\<lparr>all_bcs := bcs\<rparr>"
  have len': "length (concat (map bc_markers bcs)) \<le> 65536"
    using len by simp
  from EssentialBCs_new_char [OF len'] new obtain c where
    c: "s = cache c" "cache_inv ?s0 (marker_pairs bcs) c"
    by auto
  have lhs: "add_boundary_conditions s extra =
      (case cache_pairs (marker_pairs (all_bcs s @ extra))
              \<lparr>hermes_any_set = False, any_set = None,
               cache = s\<lparr>all_bcs := all_bcs s @ extra, markers := [], BCs := []\<rparr>\<rparr> of
         None \<Rightarrow> None | Some (Inl ex) \<Rightarrow> Some (Inl ex) | Some (Inr c) \<Rightarrow> Some (Inr (cache c)))"
    by (simp add: add_boundary_conditions_def create_marker_cache_def cache_conditions_pairs)
  have rhs: "EssentialBCs_new (bcs @ extra) =
      (case cache_pairs (marker_pairs (bcs @ extra))
              \<lparr>hermes_any_set = False, any_set = None,
               cache = EssentialBCs_empty\<lparr>all_bcs := bcs @ extra, markers := [], BCs := []\<rparr>\<rparr> of
         None \<Rightarrow> None | Some (Inl ex) \<Rightarrow> Some (Inl ex) | Some (Inr c) \<Rightarrow> Some (Inr (cache c)))"
    by (simp add: EssentialBCs_new_def add_boundary_conditions_def create_marker_cache_def
        cache_conditions_pairs EssentialBCs_empty_def)
  from c(2) show ?thesis
    unfolding cache_inv_def
  proof (elim disjE conjE exE)
    assume "cache c = ?s0\<lparr>markers := map snd (marker_pairs bcs), BCs := map fst (marker_pairs bcs)\<rparr>"
    then have "s\<lparr>all_bcs := all_bcs s @ extra, markers := [], BCs := []\<rparr> =
        EssentialBCs_empty\<lparr>all_bcs := bcs @ extra, markers := [], BCs := []\<rparr>"
      and "all_bcs s = bcs"
      using c(1) by (simp_all add: EssentialBCs_empty_def)
    then show ?thesis
      unfolding lhs rhs by simp
  next
    fix b
    assume ps: "marker_pairs bcs = [(b, HERMES_ANY)]"
      and cc: "cache c = ?s0\<lparr>markers := [], BCs := [], HermesAnyBC := Some b\<rparr>"
    have s_eq: "s = \<lparr>all_bcs = bcs, markers = [], BCs = [], HermesAnyBC = Some b\<rparr>"
      using c(1) cc by (simp add: EssentialBCs_empty_def)
    show ?thesis
      unfolding lhs rhs
      by (simp add: s_eq marker_pairs_append ps cache_marker_def EssentialBCs_empty_def)
  qed
qed

section \<open>Edge DOF assignment\<close>

lemma find_marker_returns:
  assumes "length ms \<le> 65535"
  shows "\<exists>r. find_marker ms m 0 = Some r"
proof (cases "m \<in> set ms")
  case True
  from find_marker_member [OF assms True] show ?thesis by blast
next
  case False
  from find_marker_absent [OF assms False] show ?thesis by blast
qed

lemma get_boundary_condition_returns:
  assumes "length (markers ebcs) \<le> 65535"
  shows "\<exists>r. get_boundary_condition ebcs m = Some r"
  using find_marker_returns [OF assms, of m]
  by (auto simp: get_boundary_condition_def split: option.splits)

lemma int32_in_range: "- 2147483648 \<le> x \<Longrightarrow> x \<le> 2147483647 \<Longrightarrow> int32 x = x"
  by (simp add: int32_def)

lemma same_setting_refl: "same_setting s s"
  by (simp add: same_setting_def)

lemma same_setting_trans: "same_setting s1 s \<Longrightarrow> same_setting s2 s1 \<Longrightarrow> same_setting s2 s"
  by (simp add: same_setting_def)

lemma assign_edge_dofs_edge_setting:
  "assign_edge_dofs_edge s e i = Some s' \<Longrightarrow> same_setting s' s"
  by (auto simp: assign_edge_dofs_edge_def Let_def set_nd_def assign_new_edge_dofs_def
      same_setting_def split: if_splits option.splits)

lemma assign_edge_dofs_edge_effect:
  fixes s :: Space and e :: Element and i :: nat
  defines "edge_node \<equiv> en e ! i"
  defines "k \<equiv> node_id edge_node"
  defines "unconstrained \<equiv> node_ref edge_node > 1 \<or> node_bnd edge_node \<or>
             peek_vertex_node (mesh s) (node_p1 edge_node) (node_p2 edge_node) \<noteq> None"
  defines "essential \<equiv> node_bnd edge_node \<and>
             (\<exists>ebcs bc. essential_bcs s = Some ebcs \<and>
                get_boundary_condition ebcs (get_user_marker (mesh s) (node_marker edge_node)) =
                  Some (Some bc))"
  defines "ndofs \<equiv> int32 (get_edge_order_internal s edge_node - 1)"
  defines "unassigned \<equiv> nd_dof (ndata s k) = H2D_UNASSIGNED_DOF s"
  assumes count: "\<forall>ebcs. essential_bcs s = Some ebcs \<longrightarrow> length (markers ebcs) \<le> 65535"
  shows "\<exists>s'. assign_edge_dofs_edge s e i = Some s' \<and>
            (\<forall>j. j \<noteq> k \<longrightarrow> ndata s' j = ndata s j) \<and>
            (\<not> unassigned \<longrightarrow> s' = s) \<and>
            (unassigned \<and> unconstrained \<and> essential \<longrightarrow>
               nd_dof (ndata s' k) = H2D_CONSTRAINED_DOF s \<and> nd_n (ndata s' k) = ndofs \<and>
               next_dof s' = next_dof s \<and> edge_functions_count s' = edge_functions_count s) \<and>
            (unassigned \<and> unconstrained \<and> \<not> essential \<longrightarrow>
               nd_dof (ndata s' k) = next_dof s \<and> nd_n (ndata s' k) = ndofs \<and>
               next_dof s' = int32 (next_dof s + ndofs) \<and>
               edge_functions_count s' = int32 (edge_functions_count s + ndofs)) \<and>
            (unassigned \<and> \<not> unconstrained \<longrightarrow>
               nd_n (ndata s' k) = - 1 \<and> nd_dof (ndata s' k) = H2D_UNASSIGNED_DOF s \<and>
               next_dof s' = next_dof s \<and> edge_functions_count s' = edge_functions_count s)"
proof (cases unassigned)
  case False
  then show ?thesis
    unfolding unassigned_def k_def edge_node_def
    by (simp add: assign_edge_dofs_edge_def Let_def)
next
  case ua: True
  then have unassigned': "nd_dof (ndata s (node_id (en e ! i))) = H2D_UNASSIGNED_DOF s"
    by (simp add: unassigned_def k_def edge_node_def)
  show ?thesis
  proof (cases unconstrained)
    case False
    then show ?thesis
      using ua unassigned'
      unfolding unconstrained_def k_def edge_node_def
      by (simp add: assign_edge_dofs_edge_def Let_def set_nd_def)
  next
    case unc: True
    show ?thesis
    proof (cases "node_bnd edge_node")
      case False
      then have "\<not> essential" by (simp add: essential_def)
      then show ?thesis
        using unc False ua unassigned'
        unfolding unconstrained_def k_def edge_node_def ndofs_def
        by (auto simp: assign_edge_dofs_edge_def Let_def set_nd_def assign_new_edge_dofs_def)
    next
      case bnd: True
      show ?thesis
      proof (cases "essential_bcs s")
        case None
        then have "\<not> essential" by (simp add: essential_def)
        then show ?thesis
          using unc bnd None ua unassigned'
          unfolding unconstrained_def k_def edge_node_def ndofs_def
          by (auto simp: assign_edge_dofs_edge_def Let_def set_nd_def assign_new_edge_dofs_def)
      next
        case (Some ebcs)
        with count have "length (markers ebcs) \<le> 65535" by simp
        from get_boundary_condition_returns [OF this,
            of "get_user_marker (mesh s) (node_marker edge_node)"]
        obtain r where r: "get_boundary_condition ebcs
            (get_user_marker (mesh s) (node_marker edge_node)) = Some r" ..
        show ?thesis
        proof (cases r)
          case None
          then have "\<not> essential" using r Some by (simp add: essential_def)
          then show ?thesis
            using unc bnd Some r None ua unassigned'
            unfolding unconstrained_def k_def edge_node_def ndofs_def
            by (auto simp: assign_edge_dofs_edge_def Let_def set_nd_def assign_new_edge_dofs_def)
        next
          case (Some bc)
          then have "essential" using r \<open>essential_bcs s = Some ebcs\<close> bnd
            by (simp add: essential_def)
          then show ?thesis
            using unc bnd \<open>essential_bcs s = Some ebcs\<close> r Some ua unassigned'
            unfolding unconstrained_def k_def edge_node_def ndofs_def
            by (auto simp: assign_edge_dofs_edge_def Let_def set_nd_def assign_new_edge_dofs_def)
        qed
      qed
    qed
  qed
qed

lemma assign_edge_dofs_visits_append:
  "assign_edge_dofs_visits (xs @ ys) s =
     (case assign_edge_dofs_visits xs s of
        None \<Rightarrow> None
      | Some s' \<Rightarrow> assign_edge_dofs_visits ys s')"
  by (induction xs arbitrary: s) (auto split: option.splits)

lemma assign_edge_dofs_visits_setting:
  "assign_edge_dofs_visits vs s = Some s' \<Longrightarrow> same_setting s' s"
proof (induction vs arbitrary: s)
  case Nil
  then show ?case by (simp add: same_setting_refl)
next
  case (Cons v vs)
  from Cons.prems obtain s1 where s1: "assign_edge_dofs_edge s (fst v) (snd v) = Some s1"
    and rest: "assign_edge_dofs_visits vs s1 = Some s'"
    by (auto split: option.splits)
  from same_setting_trans [OF assign_edge_dofs_edge_setting [OF s1] Cons.IH [OF rest]]
  show ?case .
qed

lemma assign_edge_dofs_visits_returns:
  assumes "\<forall>ebcs. essential_bcs s = Some ebcs \<longrightarrow> length (markers ebcs) \<le> 65535"
  shows "\<exists>s'. assign_edge_dofs_visits vs s = Some s'"
  using assms
proof (induction vs arbitrary: s)
  case Nil
  then show ?case by simp
next
  case (Cons v vs)
  from assign_edge_dofs_edge_effect [OF Cons.prems, of "fst v" "snd v"]
  obtain s1 where s1: "assign_edge_dofs_edge s (fst v) (snd v) = Some s1"
    by blast
  have "essential_bcs s1 = essential_bcs s"
    using assign_edge_dofs_edge_setting [OF s1] by (simp add: same_setting_def)
  then have "\<forall>ebcs. essential_bcs s1 = Some ebcs \<longrightarrow> length (markers ebcs) \<le> 65535"
    using Cons.prems by simp
  from Cons.IH [OF this] show ?case
    using s1 by simp
qed

lemma assign_edge_dofs_edges_visits:
  "assign_edge_dofs_edges e is s = assign_edge_dofs_visits (map (\<lambda>i. (e, i)) is) s"
  by (induction "is" arbitrary: s) (auto split: option.splits)

lemma assign_edge_dofs_elements_visits:
  "assign_edge_dofs_elements es s =
     assign_edge_dofs_visits
       (concat (map (\<lambda>e. if get_element_order s (elem_id e) > 0
                          then map (\<lambda>i. (e, i)) [0..<nvert e] else []) es)) s"
proof (induction es arbitrary: s)
  case Nil
  then show ?case by simp
next
  case (Cons e es)
  let ?ve = "if get_element_order s (elem_id e) > 0 then map (\<lambda>i. (e, i)) [0..<nvert e] else []"
  have el: "assign_edge_dofs_element s e = assign_edge_dofs_visits ?ve s"
    by (simp add: assign_edge_dofs_element_def assign_edge_dofs_edges_visits)
  show ?case
  proof (cases "assign_edge_dofs_visits ?ve s")
    case None
    then show ?thesis
      using el by (simp add: assign_edge_dofs_visits_append)
  next
    case (Some s1)
    have "get_element_order s1 = get_element_order s"
      using assign_edge_dofs_visits_setting [OF Some] by (simp add: same_setting_def)
    then show ?thesis
      using el Some Cons.IH [of s1] by (simp add: assign_edge_dofs_visits_append)
  qed
qed

lemma assign_edge_dofs_as_visits:
  "assign_edge_dofs sp =
     assign_edge_dofs_visits (edge_visits sp) (sp\<lparr>edge_functions_count := 0\<rparr>)"
  by (simp add: assign_edge_dofs_def assign_edge_dofs_elements_visits edge_visits_def)

lemma set_edge_visits:
  "(e, i) \<in> set (edge_visits sp) \<longleftrightarrow>
     e \<in> set (elements (mesh sp)) \<and> active e \<and> 0 < get_element_order sp (elem_id e) \<and>
     i < nvert e"
proof
  assume "(e, i) \<in> set (edge_visits sp)"
  then show "e \<in> set (elements (mesh sp)) \<and> active e \<and> 0 < get_element_order sp (elem_id e) \<and>
     i < nvert e"
    by (auto simp: edge_visits_def split: if_splits)
next
  assume a: "e \<in> set (elements (mesh sp)) \<and> active e \<and> 0 < get_element_order sp (elem_id e) \<and>
     i < nvert e"
  then have "e \<in> set (filter active (elements (mesh sp)))"
    by simp
  moreover have "(e, i) \<in> set (if get_element_order sp (elem_id e) > 0
                        then map (\<lambda>i. (e, i)) [0..<nvert e] else [])"
    using a by simp
  ultimately show "(e, i) \<in> set (edge_visits sp)"
    unfolding edge_visits_def set_concat set_map by blast
qed

lemma assign_edge_dofs_upto_Suc:
  assumes "j < length (edge_visits sp)"
  shows "assign_edge_dofs_upto sp (Suc j) =
           (case assign_edge_dofs_upto sp j of
              None \<Rightarrow> None
            | Some s \<Rightarrow> assign_edge_dofs_edge s (fst (edge_visits sp ! j)) (snd (edge_visits sp ! j)))"
  using assms
  by (simp add: assign_edge_dofs_upto_def take_Suc_conv_app_nth assign_edge_dofs_visits_append
      split: option.splits)


text \<open>
  Claim C4, as amended. For a space whose container of essential conditions, if it has
  one, holds at most 65535 markers, \<open>assign_edge_dofs\<close> returns, and it is the loop body
  run over the edges of every active element of positive order, in order, starting with
  the edge function count 0. At each visit, with \<open>s\<close> the state before and \<open>s'\<close> the state
  after: only the data of the visited edge node can change; a node already numbered is
  left as it is; an unnumbered node that is unconstrained and lies on the boundary with
  an essential condition on its marker gets the constrained sentinel, its count is the
  edge order minus one, and no DOF is consumed; an unnumbered node that is unconstrained
  otherwise gets the current \<open>next_dof\<close>, its count is the edge order minus one, and
  \<open>next_dof\<close> and the edge function count advance by that count; an unnumbered node that
  is constrained (referenced once, not on the boundary, no vertex node between its end
  points) gets the count \<open>-1\<close>, stays unnumbered, and no DOF is consumed. The sums are
  those of 32-bit integers, and are the plain sums within their range.
\<close>

theorem assign_edge_dofs_cases:
  assumes count: "\<forall>ebcs. essential_bcs sp = Some ebcs \<longrightarrow> length (markers ebcs) \<le> 65535"
  shows "\<exists>sp'. assign_edge_dofs sp = Some sp' \<and>
           assign_edge_dofs_upto sp 0 = Some (sp\<lparr>edge_functions_count := 0\<rparr>) \<and>
           assign_edge_dofs_upto sp (length (edge_visits sp)) = Some sp' \<and>
           (\<forall>e i. (e, i) \<in> set (edge_visits sp) \<longleftrightarrow>
              e \<in> set (elements (mesh sp)) \<and> active e \<and>
              0 < get_element_order sp (elem_id e) \<and> i < nvert e) \<and>
           (\<forall>j < length (edge_visits sp). \<exists>s s'.
              assign_edge_dofs_upto sp j = Some s \<and> assign_edge_dofs_upto sp (Suc j) = Some s' \<and>
              (let edge_node = en (fst (edge_visits sp ! j)) ! snd (edge_visits sp ! j);
                   k = node_id edge_node;
                   unassigned = (nd_dof (ndata s k) = H2D_UNASSIGNED_DOF sp);
                   unconstrained = (node_ref edge_node > 1 \<or> node_bnd edge_node \<or>
                      peek_vertex_node (mesh sp) (node_p1 edge_node) (node_p2 edge_node) \<noteq> None);
                   essential = (node_bnd edge_node \<and>
                      (\<exists>ebcs bc. essential_bcs sp = Some ebcs \<and>
                         get_boundary_condition ebcs
                           (get_user_marker (mesh sp) (node_marker edge_node)) = Some (Some bc)));
                   ndofs = int32 (get_edge_order_internal sp edge_node - 1)
               in (\<forall>n. n \<noteq> k \<longrightarrow> ndata s' n = ndata s n) \<and>
                  (\<not> unassigned \<longrightarrow> s' = s) \<and>
                  (unassigned \<and> unconstrained \<and> essential \<longrightarrow>
                     nd_dof (ndata s' k) = H2D_CONSTRAINED_DOF sp \<and> nd_n (ndata s' k) = ndofs \<and>
                     next_dof s' = next_dof s \<and>
                     edge_functions_count s' = edge_functions_count s) \<and>
                  (unassigned \<and> unconstrained \<and> \<not> essential \<longrightarrow>
                     nd_dof (ndata s' k) = next_dof s \<and> nd_n (ndata s' k) = ndofs \<and>
                     next_dof s' = int32 (next_dof s + ndofs) \<and>
                     edge_functions_count s' = int32 (edge_functions_count s + ndofs)) \<and>
                  (unassigned \<and> \<not> unconstrained \<longrightarrow>
                     nd_n (ndata s' k) = - 1 \<and> nd_dof (ndata s' k) = H2D_UNASSIGNED_DOF sp \<and>
                     next_dof s' = next_dof s \<and>
                     edge_functions_count s' = edge_functions_count s))) \<and>
           (\<forall>x. - 2147483648 \<le> x \<and> x \<le> 2147483647 \<longrightarrow> int32 x = x)"
proof -
  let ?sp0 = "sp\<lparr>edge_functions_count := 0\<rparr>"
  let ?vs = "edge_visits sp"
  have count0: "\<forall>ebcs. essential_bcs ?sp0 = Some ebcs \<longrightarrow> length (markers ebcs) \<le> 65535"
    using count by simp
  from assign_edge_dofs_visits_returns [OF count0, of ?vs]
  obtain sp' where sp': "assign_edge_dofs_visits ?vs ?sp0 = Some sp'" ..
  have run: "assign_edge_dofs sp = Some sp'"
    using sp' by (simp add: assign_edge_dofs_as_visits)
  have first: "assign_edge_dofs_upto sp 0 = Some ?sp0"
    by (simp add: assign_edge_dofs_upto_def)
  have final: "assign_edge_dofs_upto sp (length ?vs) = Some sp'"
    using sp' by (simp add: assign_edge_dofs_upto_def)
  have visits: "\<forall>e i. (e, i) \<in> set ?vs \<longleftrightarrow>
              e \<in> set (elements (mesh sp)) \<and> active e \<and>
              0 < get_element_order sp (elem_id e) \<and> i < nvert e"
    by (simp add: set_edge_visits)
  have step: "\<exists>s s'.
              assign_edge_dofs_upto sp j = Some s \<and> assign_edge_dofs_upto sp (Suc j) = Some s' \<and>
              (let edge_node = en (fst (?vs ! j)) ! snd (?vs ! j);
                   k = node_id edge_node;
                   unassigned = (nd_dof (ndata s k) = H2D_UNASSIGNED_DOF sp);
                   unconstrained = (node_ref edge_node > 1 \<or> node_bnd edge_node \<or>
                      peek_vertex_node (mesh sp) (node_p1 edge_node) (node_p2 edge_node) \<noteq> None);
                   essential = (node_bnd edge_node \<and>
                      (\<exists>ebcs bc. essential_bcs sp = Some ebcs \<and>
                         get_boundary_condition ebcs
                           (get_user_marker (mesh sp) (node_marker edge_node)) = Some (Some bc)));
                   ndofs = int32 (get_edge_order_internal sp edge_node - 1)
               in (\<forall>n. n \<noteq> k \<longrightarrow> ndata s' n = ndata s n) \<and>
                  (\<not> unassigned \<longrightarrow> s' = s) \<and>
                  (unassigned \<and> unconstrained \<and> essential \<longrightarrow>
                     nd_dof (ndata s' k) = H2D_CONSTRAINED_DOF sp \<and> nd_n (ndata s' k) = ndofs \<and>
                     next_dof s' = next_dof s \<and>
                     edge_functions_count s' = edge_functions_count s) \<and>
                  (unassigned \<and> unconstrained \<and> \<not> essential \<longrightarrow>
                     nd_dof (ndata s' k) = next_dof s \<and> nd_n (ndata s' k) = ndofs \<and>
                     next_dof s' = int32 (next_dof s + ndofs) \<and>
                     edge_functions_count s' = int32 (edge_functions_count s + ndofs)) \<and>
                  (unassigned \<and> \<not> unconstrained \<longrightarrow>
                     nd_n (ndata s' k) = - 1 \<and> nd_dof (ndata s' k) = H2D_UNASSIGNED_DOF sp \<and>
                     next_dof s' = next_dof s \<and>
                     edge_functions_count s' = edge_functions_count s))"
    if j: "j < length ?vs" for j
  proof -
    from assign_edge_dofs_visits_returns [OF count0, of "take j ?vs"]
    obtain s where s: "assign_edge_dofs_upto sp j = Some s"
      unfolding assign_edge_dofs_upto_def ..
    have "same_setting s ?sp0"
      using s assign_edge_dofs_visits_setting unfolding assign_edge_dofs_upto_def by blast
    then have st: "mesh s = mesh sp" "essential_bcs s = essential_bcs sp"
      "H2D_UNASSIGNED_DOF s = H2D_UNASSIGNED_DOF sp"
      "H2D_CONSTRAINED_DOF s = H2D_CONSTRAINED_DOF sp"
      "get_edge_order_internal s = get_edge_order_internal sp"
      by (simp_all add: same_setting_def)
    have counts: "\<forall>ebcs. essential_bcs s = Some ebcs \<longrightarrow> length (markers ebcs) \<le> 65535"
      using count st(2) by simp
    from assign_edge_dofs_edge_effect [OF counts, of "fst (?vs ! j)" "snd (?vs ! j)"]
    obtain s' where s': "assign_edge_dofs_edge s (fst (?vs ! j)) (snd (?vs ! j)) = Some s'"
      and eff: "(\<forall>n. n \<noteq> node_id (en (fst (?vs ! j)) ! snd (?vs ! j)) \<longrightarrow> ndata s' n = ndata s n) \<and>
            (\<not> nd_dof (ndata s (node_id (en (fst (?vs ! j)) ! snd (?vs ! j)))) = H2D_UNASSIGNED_DOF s \<longrightarrow> s' = s) \<and>
            (nd_dof (ndata s (node_id (en (fst (?vs ! j)) ! snd (?vs ! j)))) = H2D_UNASSIGNED_DOF s \<and>
             (node_ref (en (fst (?vs ! j)) ! snd (?vs ! j)) > 1 \<or> node_bnd (en (fst (?vs ! j)) ! snd (?vs ! j)) \<or>
               peek_vertex_node (mesh s) (node_p1 (en (fst (?vs ! j)) ! snd (?vs ! j)))
                 (node_p2 (en (fst (?vs ! j)) ! snd (?vs ! j))) \<noteq> None) \<and>
             (node_bnd (en (fst (?vs ! j)) ! snd (?vs ! j)) \<and>
               (\<exists>ebcs bc. essential_bcs s = Some ebcs \<and>
                  get_boundary_condition ebcs
                    (get_user_marker (mesh s) (node_marker (en (fst (?vs ! j)) ! snd (?vs ! j)))) =
                    Some (Some bc))) \<longrightarrow>
               nd_dof (ndata s' (node_id (en (fst (?vs ! j)) ! snd (?vs ! j)))) = H2D_CONSTRAINED_DOF s \<and>
               nd_n (ndata s' (node_id (en (fst (?vs ! j)) ! snd (?vs ! j)))) =
                 int32 (get_edge_order_internal s (en (fst (?vs ! j)) ! snd (?vs ! j)) - 1) \<and>
               next_dof s' = next_dof s \<and> edge_functions_count s' = edge_functions_count s) \<and>
            (nd_dof (ndata s (node_id (en (fst (?vs ! j)) ! snd (?vs ! j)))) = H2D_UNASSIGNED_DOF s \<and>
             (node_ref (en (fst (?vs ! j)) ! snd (?vs ! j)) > 1 \<or> node_bnd (en (fst (?vs ! j)) ! snd (?vs ! j)) \<or>
               peek_vertex_node (mesh s) (node_p1 (en (fst (?vs ! j)) ! snd (?vs ! j)))
                 (node_p2 (en (fst (?vs ! j)) ! snd (?vs ! j))) \<noteq> None) \<and>
             \<not> (node_bnd (en (fst (?vs ! j)) ! snd (?vs ! j)) \<and>
               (\<exists>ebcs bc. essential_bcs s = Some ebcs \<and>
                  get_boundary_condition ebcs
                    (get_user_marker (mesh s) (node_marker (en (fst (?vs ! j)) ! snd (?vs ! j)))) =
                    Some (Some bc))) \<longrightarrow>
               nd_dof (ndata s' (node_id (en (fst (?vs ! j)) ! snd (?vs ! j)))) = next_dof s \<and>
               nd_n (ndata s' (node_id (en (fst (?vs ! j)) ! snd (?vs ! j)))) =
                 int32 (get_edge_order_internal s (en (fst (?vs ! j)) ! snd (?vs ! j)) - 1) \<and>
               next_dof s' = int32 (next_dof s +
                 int32 (get_edge_order_internal s (en (fst (?vs ! j)) ! snd (?vs ! j)) - 1)) \<and>
               edge_functions_count s' = int32 (edge_functions_count s +
                 int32 (get_edge_order_internal s (en (fst (?vs ! j)) ! snd (?vs ! j)) - 1))) \<and>
            (nd_dof (ndata s (node_id (en (fst (?vs ! j)) ! snd (?vs ! j)))) = H2D_UNASSIGNED_DOF s \<and>
             \<not> (node_ref (en (fst (?vs ! j)) ! snd (?vs ! j)) > 1 \<or> node_bnd (en (fst (?vs ! j)) ! snd (?vs ! j)) \<or>
               peek_vertex_node (mesh s) (node_p1 (en (fst (?vs ! j)) ! snd (?vs ! j)))
                 (node_p2 (en (fst (?vs ! j)) ! snd (?vs ! j))) \<noteq> None) \<longrightarrow>
               nd_n (ndata s' (node_id (en (fst (?vs ! j)) ! snd (?vs ! j)))) = - 1 \<and>
               nd_dof (ndata s' (node_id (en (fst (?vs ! j)) ! snd (?vs ! j)))) = H2D_UNASSIGNED_DOF s \<and>
               next_dof s' = next_dof s \<and> edge_functions_count s' = edge_functions_count s)"
      by blast
    have next_state: "assign_edge_dofs_upto sp (Suc j) = Some s'"
      using assign_edge_dofs_upto_Suc [OF j] s s' by simp
    show ?thesis
      using s next_state eff unfolding st Let_def by blast
  qed
  have range: "\<forall>x. - 2147483648 \<le> x \<and> x \<le> 2147483647 \<longrightarrow> int32 x = x"
    by (simp add: int32_in_range)
  show ?thesis
    using run first final visits step range by blast
qed


lemma ex_lookup:
  "get_boundary_condition \<lparr>all_bcs = [ex_bc [''Dirichlet''] 0], markers = [''Dirichlet''],
                            BCs = [ex_bc [''Dirichlet''] 0], HermesAnyBC = None\<rparr> ''Dirichlet'' =
     Some (Some (ex_bc [''Dirichlet''] 0))"
  by (simp add: get_boundary_condition_def find_marker.simps)

lemma ex_lookup_inner:
  "get_boundary_condition \<lparr>all_bcs = [ex_bc [''Dirichlet''] 0], markers = [''Dirichlet''],
                            BCs = [ex_bc [''Dirichlet''] 0], HermesAnyBC = None\<rparr> ''Inner'' =
     Some None"
  by (simp add: get_boundary_condition_def find_marker.simps)

lemma ex_edge_visits:
  "edge_visits ex_h1_space =
     [(ex_element, 0), (ex_element, 1), (ex_element, 2),
      (ex_element2, 0), (ex_element2, 1), (ex_element2, 2)]"
proof -
  have u3: "[0..<3] = [0, 1, 2]"
    by code_simp
  show ?thesis
    by (simp add: edge_visits_def ex_h1_space_def ex_element_def ex_element2_def
        ex_element3_def u3)
qed

lemma ex_edge_pass_run:
  "map_option edge_pass_summary (assign_edge_dofs ex_h1_space) =
     Some ([(- 1, 2), (4, 2), (- 1, 2), (- 2, - 1), (6, 2), (- 2, 1), (- 2, 1), (- 2, 1)], 8, 4)"
  unfolding assign_edge_dofs_as_visits ex_edge_visits
  using ex_lookup ex_lookup_inner
  by (simp add: ex_h1_space_def ex_element_def ex_element2_def assign_edge_dofs_edge_def
      Let_def set_nd_def assign_new_edge_dofs_def int32_def edge_pass_summary_def)

lemma ex_edge_pass_upto:
  "map_option edge_pass_summary (assign_edge_dofs_upto ex_h1_space 2) =
     Some ([(- 1, 2), (4, 2), (- 2, 1), (- 2, 1), (- 2, 1), (- 2, 1), (- 2, 1), (- 2, 1)], 6, 2)"
  unfolding assign_edge_dofs_upto_def ex_edge_visits
  using ex_lookup ex_lookup_inner
  by (simp add: ex_h1_space_def ex_element_def ex_element2_def assign_edge_dofs_edge_def
      Let_def set_nd_def assign_new_edge_dofs_def int32_def edge_pass_summary_def)

theorem assign_edge_dofs_cases_witness:
  "map_option edge_pass_summary (assign_edge_dofs ex_h1_space) =
     Some ([(- 1, 2), (4, 2), (- 1, 2), (- 2, - 1), (6, 2), (- 2, 1), (- 2, 1), (- 2, 1)], 8, 4) \<and>
   edge_visits ex_h1_space =
     [(ex_element, 0), (ex_element, 1), (ex_element, 2),
      (ex_element2, 0), (ex_element2, 1), (ex_element2, 2)] \<and>
   map_option edge_pass_summary (assign_edge_dofs_upto ex_h1_space 2) =
     Some ([(- 1, 2), (4, 2), (- 2, 1), (- 2, 1), (- 2, 1), (- 2, 1), (- 2, 1), (- 2, 1)], 6, 2) \<and>
   assign_edge_dofs_upto ex_h1_space 6 = assign_edge_dofs ex_h1_space \<and>
   int32 (4 + 2) = 6"
proof -
  have c: "\<forall>ebcs. essential_bcs ex_h1_space = Some ebcs \<longrightarrow> length (markers ebcs) \<le> 65535"
    by (simp add: ex_h1_space_def)
  from assign_edge_dofs_cases [OF c] obtain sp' where
    run: "assign_edge_dofs ex_h1_space = Some sp'"
    and final: "assign_edge_dofs_upto ex_h1_space (length (edge_visits ex_h1_space)) = Some sp'"
    by blast
  have all: "assign_edge_dofs_upto ex_h1_space 6 = assign_edge_dofs ex_h1_space"
  proof -
    have "length (edge_visits ex_h1_space) = 6"
      unfolding ex_edge_visits by simp
    then show ?thesis
      using run final by simp
  qed
  have wrap: "int32 (4 + 2) = 6"
    by (simp add: int32_def)
  show ?thesis
    using ex_edge_pass_run ex_edge_visits ex_edge_pass_upto all wrap
    by (simp only: simp_thms)
qed

lemma ex_many_lookup_any:
  assumes "m \<notin> set ex_many_markers"
  shows "get_boundary_condition ex_many_bcs m = None"
proof -
  have len: "65536 \<le> length ex_many_markers"
    by (simp add: ex_many_markers_facts)
  have "\<forall>j < 65536. ex_many_markers ! j \<noteq> m"
    using ex_many_markers_facts(1) assms by (metis nth_mem)
  from find_marker_never_returns [OF len this, of 0]
  show ?thesis
    by (simp add: get_boundary_condition_def ex_many_bcs_def)
qed

text \<open>
  The claim as first stated fails for a space whose container holds 65536 markers: the
  first edge of the first triangle lies on the boundary and its marker carries no
  essential condition, so the claim has it receive new DOFs; the lookup of its marker
  never returns, and neither does \<open>assign_edge_dofs\<close>.
\<close>

theorem assign_edge_dofs_never_returns_counterexample:
  "''Dirichlet'' \<notin> set ex_many_markers \<and>
   essential_bcs ex_h1_space_many = Some ex_many_bcs \<and>
   hd (edge_visits ex_h1_space_many) = (ex_element, 0) \<and>
   node_bnd (en ex_element ! 0) \<and>
   get_user_marker (mesh ex_h1_space_many) (node_marker (en ex_element ! 0)) = ''Dirichlet'' \<and>
   assign_edge_dofs ex_h1_space_many = None"
proof -
  have notin: "''Dirichlet'' \<notin> set ex_many_markers"
    by (auto simp: ex_many_markers_def ex_marker_name_def)
  have look: "get_boundary_condition ex_many_bcs ''Dirichlet'' = None"
    by (rule ex_many_lookup_any [OF notin])
  have vs: "edge_visits ex_h1_space_many = edge_visits ex_h1_space"
    by (simp add: edge_visits_def ex_h1_space_many_def)
  have first: "assign_edge_dofs_edge (ex_h1_space_many\<lparr>edge_functions_count := 0\<rparr>) ex_element 0 = None"
    using look
    by (simp add: ex_h1_space_many_def ex_h1_space_def ex_element_def assign_edge_dofs_edge_def
        Let_def set_nd_def)
  have run: "assign_edge_dofs ex_h1_space_many = None"
    unfolding assign_edge_dofs_as_visits vs ex_edge_visits using first by simp
  show ?thesis
    using notin run
    by (simp add: vs ex_edge_visits) (simp add: ex_h1_space_many_def ex_h1_space_def ex_element_def)
qed

section \<open>The Newton loop at its iteration budget\<close>

text \<open>
  Claim C8. With a budget of two iterations, a residual norm of 1 in the first iteration
  and 0 (below the tolerance) in the second, the loop breaks on convergence in the second
  iteration and \<open>rk_time_step\<close> returns false; so does a linear problem with a budget of
  one iteration. With a budget of three iterations the same residuals return true.
\<close>

theorem rk_time_step_fails_on_convergence_at_budget:
  "rk_time_step SOLVER_UMFPACK 1 False True (\<lambda>it. if it = 1 then 1 else 0) (\<lambda>it. True) False
     (1 / 10000) 2 1000000 = Returned False \<and>
   (\<lambda>it::int. if it = 1 then 1 else (0::real)) 2 < 1 / 10000 \<and>
   rk_time_step SOLVER_UMFPACK 1 False True (\<lambda>it. 1) (\<lambda>it. True) True (1 / 10000) 1 1000000 =
     Returned False \<and>
   rk_time_step SOLVER_UMFPACK 1 False True (\<lambda>it. if it = 1 then 1 else 0) (\<lambda>it. True) False
     (1 / 10000) 3 1000000 = Returned True"
  by (simp add: rk_time_step_def Newton_loop.simps)

section \<open>Merging baselists\<close>


lemma emitted_replicate_None: "emitted (replicate n None) = []"
  by (induction n) simp_all







































section \<open>Zero coefficients in baselists\<close>





end
